theory Spec2Isabelle
  imports Main
begin

section \<open>Python strings\<close>

text \<open>
  A Python \<open>str\<close> is modelled as a \<open>string\<close> whose characters are the code points
  below 256. \<open>isspace\<close> is \<open>str.isspace\<close> on that range: the characters that
  \<open>str.strip()\<close> removes and on which \<open>str.split()\<close> separates.
\<close>

definition isspace :: "char \<Rightarrow> bool" where
  "isspace c \<longleftrightarrow> c \<in> set [CHR 0x09, CHR 0x0A, CHR 0x0B, CHR 0x0C, CHR 0x0D,
                        CHR 0x1C, CHR 0x1D, CHR 0x1E, CHR 0x1F, CHR 0x20, CHR 0x85, CHR 0xA0]"

text \<open>\<open>s.strip()\<close>\<close>

definition strip :: "string \<Rightarrow> string" where
  "strip s = rev (dropWhile isspace (rev (dropWhile isspace s)))"

text \<open>\<open>s.startswith(p)\<close>\<close>

definition startswith :: "string \<Rightarrow> string \<Rightarrow> bool" where
  "startswith s p \<longleftrightarrow> take (length p) s = p"

text \<open>\<open>s.split(sep)\<close> for a separator of one character: never an empty list.\<close>

fun split_on :: "char \<Rightarrow> string \<Rightarrow> string list" where
  "split_on sep [] = [[]]"
| "split_on sep (c # cs) =
     (if c = sep then [] # split_on sep cs
      else (case split_on sep cs of
              [] \<Rightarrow> [[c]]
            | l # ls \<Rightarrow> (c # l) # ls))"

text \<open>\<open>s.split()\<close>: the maximal runs of characters that are not whitespace.\<close>

function split_ws :: "string \<Rightarrow> string list" where
  "split_ws s =
     (case dropWhile isspace s of
        [] \<Rightarrow> []
      | c # cs \<Rightarrow> takeWhile (\<lambda>x. \<not> isspace x) (c # cs)
                 # split_ws (dropWhile (\<lambda>x. \<not> isspace x) (c # cs)))"
  by pat_completeness auto
termination
proof (relation "measure length")
  show "wf (measure length)" by simp
next
  fix s :: string and c cs
  assume d: "dropWhile isspace s = c # cs"
  then have "\<not> isspace c"
    by (metis hd_dropWhile list.sel(1) list.distinct(1))
  then have "length (dropWhile (\<lambda>x. \<not> isspace x) (c # cs)) \<le> length cs"
    by (simp add: length_dropWhile_le)
  moreover have "length (c # cs) \<le> length s"
    using d length_dropWhile_le [of isspace s] by simp
  ultimately show "(dropWhile (\<lambda>x. \<not> isspace x) (c # cs), s) \<in> measure length"
    by simp
qed

declare split_ws.simps [simp del]

section \<open>The primary-owner parser\<close>

text \<open>
  The body of the \<open>for line in lines\<close> loop of \<open>parse_primary_codeowner\<close>: a line that
  decides returns, every other line continues with the next one, and the end of the
  lines returns \<open>None\<close>.
\<close>

fun parse_lines :: "string list \<Rightarrow> string option" where
  "parse_lines [] = None"
| "parse_lines (l # ls) =
     (let line = strip l in
      if line = [] \<or> startswith line ''#'' then parse_lines ls
      else
        let parts = split_ws line in
        if startswith line ''@'' \<and> length parts = 1 then Some (drop 1 line)
        else if length parts \<ge> 2 then
          (let owners = drop 1 parts;
               primary_owner = owners ! 0
           in Some (if startswith primary_owner ''@'' then drop 1 primary_owner
                    else primary_owner))
        else parse_lines ls)"

definition parse_primary_codeowner :: "string \<Rightarrow> string option" where
  "parse_primary_codeowner content =
     (if content = [] then None
      else parse_lines (split_on CHR 0x0A (strip content)))"

text \<open>The test of the loop, \<open>not line or line.startswith("#")\<close>, on the untrimmed line.\<close>

definition skipped_line :: "string \<Rightarrow> bool" where
  "skipped_line l \<longleftrightarrow> strip l = [] \<or> startswith (strip l) ''#''"

text \<open>An owner token without its leading \<open>@\<close>, when it has one.\<close>

definition strip_at :: "string \<Rightarrow> string" where
  "strip_at t = (if startswith t ''@'' then drop 1 t else t)"

section \<open>JSON values and the Python operations on them\<close>

text \<open>
  \<open>response.json()\<close> is a Python value built from \<open>None\<close>, booleans, integers,
  strings, lists and dictionaries (numbers are integers, as the API's are). A dictionary
  is an association list; \<open>map_of\<close> reads a key. The operations below raise what
  Python raises.
\<close>

datatype json =
    JNull
  | JBool bool
  | JInt int
  | JStr string
  | JList "json list"
  | JDict "(string \<times> json) list"

datatype py_error =
    KeyError string
  | TypeError
  | AttributeError
  | DecodeError
  | ValueError
  | OverflowError

text \<open>The truth value of \<open>if v\<close> and \<open>not v\<close>.\<close>

fun truthy :: "json \<Rightarrow> bool" where
  "truthy JNull = False"
| "truthy (JBool b) = b"
| "truthy (JInt n) = (n \<noteq> 0)"
| "truthy (JStr s) = (s \<noteq> [])"
| "truthy (JList xs) = (xs \<noteq> [])"
| "truthy (JDict kvs) = (kvs \<noteq> [])"

text \<open>\<open>d[k]\<close> for a string key \<open>k\<close>.\<close>

fun subscript :: "json \<Rightarrow> string \<Rightarrow> py_error + json" where
  "subscript (JDict kvs) k = (case map_of kvs k of None \<Rightarrow> Inl (KeyError k) | Some v \<Rightarrow> Inr v)"
| "subscript _ k = Inl TypeError"

text \<open>\<open>d.get(k, default)\<close>: only a dictionary has the method.\<close>

fun dict_get :: "json \<Rightarrow> string \<Rightarrow> json \<Rightarrow> py_error + json" where
  "dict_get (JDict kvs) k d = Inr (case map_of kvs k of None \<Rightarrow> d | Some v \<Rightarrow> v)"
| "dict_get _ k d = Inl AttributeError"

text \<open>The elements \<open>for x in v\<close> visits; \<open>len(v)\<close> is their number.\<close>

fun py_iter :: "json \<Rightarrow> py_error + json list" where
  "py_iter (JList xs) = Inr xs"
| "py_iter (JDict kvs) = Inr (map (\<lambda>kv. JStr (fst kv)) kvs)"
| "py_iter (JStr s) = Inr (map (\<lambda>c. JStr [c]) s)"
| "py_iter _ = Inl TypeError"

text \<open>A value in arithmetic and in a comparison with an integer (\<open>bool\<close> is an \<open>int\<close>).\<close>

fun as_number :: "json \<Rightarrow> py_error + int" where
  "as_number (JInt n) = Inr n"
| "as_number (JBool b) = Inr (if b then 1 else 0)"
| "as_number _ = Inl TypeError"

section \<open>The HTTP transport, the clock and the state of a run\<close>

text \<open>
  A request names its URL by the endpoint and the values formatted into it
  (\<open>/rate_limit\<close>, \<open>/orgs/{org}/repos\<close>, \<open>/repos/{org}/{repo_name}/contents/{location}\<close>
  under \<open>base_url\<close>) and carries the query parameters.  The transport answers every
  request with a status code and a JSON body. What the program prints is not part of
  the model.
\<close>

datatype endpoint =
    RateLimit
  | OrgRepos string
  | Contents string json string

record request =
  endpoint :: endpoint
  params :: "(string \<times> json) list"

record response =
  status_code :: int
  body :: json

text \<open>\<open>time.sleep(n)\<close> for whole seconds, and the pacing delay \<open>time.sleep(0.1)\<close>.\<close>

datatype duration = Seconds int | Pacing

datatype event = Call request response | Slept duration

text \<open>
  The world outside the program is a state of any type \<open>'w\<close>: a request is answered
  from it and changes it, \<open>clock\<close> is \<open>int(time.time())\<close>, and time passes in a sleep.
  \<open>b64decode_utf8\<close> is \<open>base64.b64decode(s).decode("utf-8")\<close>, which can raise.
\<close>

record 'w env =
  org :: string
  http_get :: "request \<Rightarrow> 'w \<Rightarrow> response \<times> 'w"
  clock :: "'w \<Rightarrow> int"
  pass_time :: "duration \<Rightarrow> 'w \<Rightarrow> 'w"
  b64decode_utf8 :: "string \<Rightarrow> py_error + string"

text \<open>A run threads the world and the list of the effects so far.\<close>

record 'w state =
  world :: 'w
  trace :: "event list"

definition session_get :: "'w env \<Rightarrow> request \<Rightarrow> 'w state \<Rightarrow> response \<times> 'w state" where
  "session_get E rq s =
     (case http_get E rq (world s) of
        (r, w) \<Rightarrow> (r, \<lparr>world = w, trace = trace s @ [Call rq r]\<rparr>))"

text \<open>The effect of a sleep that returns: time passes and the sleep is in the trace.\<close>

definition slept :: "'w env \<Rightarrow> duration \<Rightarrow> 'w state \<Rightarrow> 'w state" where
  "slept E d s = \<lparr>world = pass_time E d (world s), trace = trace s @ [Slept d]\<rparr>"

text \<open>
  \<open>time.sleep\<close> takes its argument to a count of nanoseconds in 64 bits: it raises
  \<open>OverflowError\<close> above 9223372036 whole seconds, and \<open>ValueError\<close> for a negative
  argument. The pacing delay always returns.
\<close>

definition max_sleep :: int where
  "max_sleep = 9223372036"

definition time_sleep ::
  "'w env \<Rightarrow> duration \<Rightarrow> 'w state \<Rightarrow> (py_error + unit) \<times> 'w state" where
  "time_sleep E d s =
     (case d of
        Seconds n \<Rightarrow>
          if n < 0 then (Inl ValueError, s)
          else if max_sleep < n then (Inl OverflowError, s)
          else (Inr (), slept E d s)
      | Pacing \<Rightarrow> (Inr (), slept E d s))"

section \<open>The rate-limit guard\<close>

text \<open>
  What \<open>check_rate_limit\<close> computes from the body of a 200 answer and the clock:
  an exception, no wait, or the seconds to sleep.
\<close>

definition quota_wait :: "json \<Rightarrow> int \<Rightarrow> py_error + int option" where
  "quota_wait data now =
     (case subscript data ''resources'' of Inl e \<Rightarrow> Inl e | Inr resources \<Rightarrow>
     (case subscript resources ''core'' of Inl e \<Rightarrow> Inl e | Inr core \<Rightarrow>
     (case subscript core ''remaining'' of Inl e \<Rightarrow> Inl e | Inr remaining \<Rightarrow>
     (case subscript core ''reset'' of Inl e \<Rightarrow> Inl e | Inr reset_time \<Rightarrow>
     (case as_number remaining of Inl e \<Rightarrow> Inl e | Inr r \<Rightarrow>
        if r < 10 then
          (case as_number reset_time of Inl e \<Rightarrow> Inl e | Inr t \<Rightarrow>
             let wait_time = t - now + 10 in
             if wait_time > 0 then Inr (Some wait_time) else Inr None)
        else Inr None)))))"

definition rate_limit_request :: request where
  "rate_limit_request = \<lparr>endpoint = RateLimit, params = []\<rparr>"

definition check_rate_limit :: "'w env \<Rightarrow> 'w state \<Rightarrow> (py_error + unit) \<times> 'w state" where
  "check_rate_limit E s =
     (case session_get E rate_limit_request s of
        (response, s1) \<Rightarrow>
          if status_code response = 200 then
            (case quota_wait (body response) (clock E (world s1)) of
               Inl e \<Rightarrow> (Inl e, s1)
             | Inr None \<Rightarrow> (Inr (), s1)
             | Inr (Some wait_time) \<Rightarrow> time_sleep E (Seconds wait_time) s1)
          else (Inr (), s1))"

section \<open>Repository discovery\<close>

text \<open>The three tests of the filter loop, in the order the loop makes them.\<close>

fun filter_repos :: "bool \<Rightarrow> bool \<Rightarrow> bool \<Rightarrow> json list \<Rightarrow> json list \<Rightarrow> py_error + json list" where
  "filter_repos include_public include_private include_archived filtered_repos [] =
     Inr filtered_repos"
| "filter_repos include_public include_private include_archived filtered_repos (repo # rest) =
     (case dict_get repo ''archived'' (JBool False) of Inl e \<Rightarrow> Inl e | Inr archived \<Rightarrow>
        if truthy archived \<and> \<not> include_archived
        then filter_repos include_public include_private include_archived filtered_repos rest
        else
          (case dict_get repo ''private'' (JBool False) of Inl e \<Rightarrow> Inl e | Inr private \<Rightarrow>
             if truthy private \<and> \<not> include_private
             then filter_repos include_public include_private include_archived filtered_repos rest
             else if \<not> truthy private \<and> \<not> include_public
             then filter_repos include_public include_private include_archived filtered_repos rest
             else filter_repos include_public include_private include_archived
                    (filtered_repos @ [repo]) rest))"

definition per_page :: int where
  "per_page = 100"

definition listing_request :: "'w env \<Rightarrow> int \<Rightarrow> request" where
  "listing_request E page =
     \<lparr>endpoint = OrgRepos (org E),
      params = [(''page'', JInt page), (''per_page'', JInt per_page),
                (''type'', JStr ''all''), (''sort'', JStr ''name'')]\<rparr>"

text \<open>
  One pass through the body of the \<open>while True\<close> loop of \<open>get_repositories\<close>: it
  raises, or leaves the loop by a \<open>break\<close>, or reaches \<open>page += 1\<close>; with the
  repositories accumulated at that point.
\<close>

datatype loop_exit = Break | Continue

definition page_pass ::
  "'w env \<Rightarrow> bool \<times> bool \<times> bool \<Rightarrow> int \<Rightarrow> json list \<Rightarrow> 'w state
     \<Rightarrow> (py_error + loop_exit \<times> json list) \<times> 'w state" where
  "page_pass E flags page repositories s =
     (case check_rate_limit E s of
        (Inl e, s1) \<Rightarrow> (Inl e, s1)
      | (Inr u, s1) \<Rightarrow>
          (case session_get E (listing_request E page) s1 of
             (response, s2) \<Rightarrow>
               if status_code response \<noteq> 200 then (Inr (Break, repositories), s2)
               else if \<not> truthy (body response) then (Inr (Break, repositories), s2)
               else
                 (case py_iter (body response) of
                    Inl e \<Rightarrow> (Inl e, s2)
                  | Inr entries \<Rightarrow>
                      (case filter_repos (fst flags) (fst (snd flags)) (snd (snd flags)) [] entries of
                         Inl e \<Rightarrow> (Inl e, s2)
                       | Inr filtered_repos \<Rightarrow>
                           if int (length entries) < per_page
                           then (Inr (Break, repositories @ filtered_repos), s2)
                           else (Inr (Continue, repositories @ filtered_repos), s2)))))"

text \<open>
  The loop, from the page and the repositories it has reached. The loop has no bound
  of its own: not returning is \<open>None\<close>.
\<close>

partial_function (option) fetch_pages ::
  "'w env \<Rightarrow> bool \<times> bool \<times> bool \<Rightarrow> int \<Rightarrow> json list \<Rightarrow> 'w state
     \<Rightarrow> ((py_error + json list) \<times> 'w state) option" where
  "fetch_pages E flags page repositories s =
     (case page_pass E flags page repositories s of
        (Inl e, s2) \<Rightarrow> Some (Inl e, s2)
      | (Inr (Break, repositories'), s2) \<Rightarrow> Some (Inr repositories', s2)
      | (Inr (Continue, repositories'), s2) \<Rightarrow>
          fetch_pages E flags (page + 1) repositories' s2)"

definition get_repositories ::
  "'w env \<Rightarrow> bool \<Rightarrow> bool \<Rightarrow> bool \<Rightarrow> 'w state
     \<Rightarrow> ((py_error + json list) \<times> 'w state) option" where
  "get_repositories E include_public include_private include_archived s =
     fetch_pages E (include_public, include_private, include_archived) 1 [] s"

section \<open>The CODEOWNERS locator\<close>

definition locations :: "string list" where
  "locations = [''.github/CODEOWNERS'', ''CODEOWNERS'', ''docs/CODEOWNERS'']"

definition contents_request :: "'w env \<Rightarrow> json \<Rightarrow> string \<Rightarrow> request" where
  "contents_request E repo_name location =
     \<lparr>endpoint = Contents (org E) repo_name location, params = []\<rparr>"

text \<open>
  The \<open>for location in locations\<close> loop of \<open>get_codeowners_content\<close> over the
  locations left; after the last one the function returns \<open>(None, None)\<close>.
\<close>

fun probe_locations ::
  "'w env \<Rightarrow> json \<Rightarrow> string list \<Rightarrow> 'w state
     \<Rightarrow> (py_error + string option \<times> string option) \<times> 'w state" where
  "probe_locations E repo_name [] s = (Inr (None, None), s)"
| "probe_locations E repo_name (location # rest) s =
     (case session_get E (contents_request E repo_name location) s of
        (response, s1) \<Rightarrow>
          if status_code response = 200 then
            (case dict_get (body response) ''content'' JNull of
               Inl e \<Rightarrow> (Inl e, s1)
             | Inr payload \<Rightarrow>
                 if truthy payload then
                   (case payload of
                      JStr b64 \<Rightarrow>
                        (case b64decode_utf8 E b64 of
                           Inl e \<Rightarrow> (Inl e, s1)
                         | Inr content \<Rightarrow> (Inr (Some content, Some location), s1))
                    | _ \<Rightarrow> (Inl TypeError, s1))
                 else probe_locations E repo_name rest s1)
          else probe_locations E repo_name rest s1)"

definition get_codeowners_content ::
  "'w env \<Rightarrow> json \<Rightarrow> 'w state \<Rightarrow> (py_error + string option \<times> string option) \<times> 'w state" where
  "get_codeowners_content E repo_name s = probe_locations E repo_name locations s"

section \<open>The report\<close>

record analysis_record =
  repository_url :: json
  repository_name :: json
  has_codeowner_file :: bool
  codeowners_file_location :: "string option"
  primary_owner :: string

text \<open>\<open>primary_owner or "No CODEOWNERS file"\<close>: \<open>None\<close> and the empty string are false.\<close>

definition owner_or_default :: "string option \<Rightarrow> string" where
  "owner_or_default parsed =
     (case parsed of
        None \<Rightarrow> ''No CODEOWNERS file''
      | Some p \<Rightarrow> if p = [] then ''No CODEOWNERS file'' else p)"

text \<open>
  The record \<open>analyze_repositories\<close> appends for a repository, from what the locator
  returned: the branch on \<open>if codeowners_content\<close> and the dictionary literal.
\<close>

definition assemble ::
  "json \<Rightarrow> json \<Rightarrow> string option \<Rightarrow> string option \<Rightarrow> analysis_record" where
  "assemble repo_url repo_name codeowners_content codeowners_location =
     (case codeowners_content of
        Some content \<Rightarrow>
          if content \<noteq> [] then
            \<lparr>repository_url = repo_url, repository_name = repo_name,
             has_codeowner_file = True,
             codeowners_file_location = codeowners_location,
             primary_owner = owner_or_default (parse_primary_codeowner content)\<rparr>
          else
            \<lparr>repository_url = repo_url, repository_name = repo_name,
             has_codeowner_file = False,
             codeowners_file_location = None,
             primary_owner = owner_or_default None\<rparr>
      | None \<Rightarrow>
          \<lparr>repository_url = repo_url, repository_name = repo_name,
           has_codeowner_file = False,
           codeowners_file_location = None,
           primary_owner = owner_or_default None\<rparr>)"

text \<open>
  One pass of the loop \<open>for i, repo in enumerate(repositories, 1)\<close>: the record of
  the repository and the state after the pacing delay.
\<close>

definition analyze_one ::
  "'w env \<Rightarrow> nat \<Rightarrow> json \<Rightarrow> 'w state \<Rightarrow> (py_error + analysis_record) \<times> 'w state" where
  "analyze_one E i repo s =
     (case subscript repo ''name'' of Inl e \<Rightarrow> (Inl e, s) | Inr repo_name \<Rightarrow>
     (case subscript repo ''html_url'' of Inl e \<Rightarrow> (Inl e, s) | Inr repo_url \<Rightarrow>
     (case (if i mod 50 = 0 then check_rate_limit E s else (Inr (), s)) of
        (Inl e, s1) \<Rightarrow> (Inl e, s1)
      | (Inr u, s1) \<Rightarrow>
          (case get_codeowners_content E repo_name s1 of
             (Inl e, s2) \<Rightarrow> (Inl e, s2)
           | (Inr (codeowners_content, codeowners_location), s2) \<Rightarrow>
               (case time_sleep E Pacing s2 of
                  (Inl e, s3) \<Rightarrow> (Inl e, s3)
                | (Inr u, s3) \<Rightarrow>
                    (Inr (assemble repo_url repo_name codeowners_content codeowners_location),
                     s3))))))"

fun analyze_loop ::
  "'w env \<Rightarrow> nat \<Rightarrow> json list \<Rightarrow> analysis_record list \<Rightarrow> 'w state
     \<Rightarrow> (py_error + analysis_record list) \<times> 'w state" where
  "analyze_loop E i [] results s = (Inr results, s)"
| "analyze_loop E i (repo # rest) results s =
     (case analyze_one E i repo s of
        (Inl e, s1) \<Rightarrow> (Inl e, s1)
      | (Inr r, s1) \<Rightarrow> analyze_loop E (i + 1) rest (results @ [r]) s1)"

definition analyze_repositories ::
  "'w env \<Rightarrow> json list \<Rightarrow> 'w state \<Rightarrow> (py_error + analysis_record list) \<times> 'w state" where
  "analyze_repositories E repositories s = analyze_loop E 1 repositories [] s"

section \<open>Reading a trace\<close>

text \<open>The requests of a trace, in the order they were sent.\<close>

fun requests :: "event list \<Rightarrow> request list" where
  "requests [] = []"
| "requests (Call rq r # evs) = rq # requests evs"
| "requests (Slept d # evs) = requests evs"

text \<open>
  The entries the organisation's listing delivered in a trace: those of the bodies of
  its 200 answers, in the order of the answers.
\<close>

fun listed :: "string \<Rightarrow> event list \<Rightarrow> json list" where
  "listed organisation [] = []"
| "listed organisation (Call rq r # evs) =
     (if endpoint rq = OrgRepos organisation \<and> status_code r = 200
      then (case py_iter (body r) of Inr entries \<Rightarrow> entries | Inl e \<Rightarrow> [])
      else []) @ listed organisation evs"
| "listed organisation (Slept d # evs) = listed organisation evs"

text \<open>The requests of \<open>n\<close> passes of the discovery loop that start at \<open>page\<close>.\<close>

definition page_requests :: "'w env \<Rightarrow> int \<Rightarrow> nat \<Rightarrow> request list" where
  "page_requests E page n =
     concat (map (\<lambda>k. [rate_limit_request, listing_request E (page + int k)]) [0..<n])"

section \<open>The filter in the words of the specification\<close>

definition is_object :: "json \<Rightarrow> bool" where
  "is_object v = (case v of JDict kvs \<Rightarrow> True | _ \<Rightarrow> False)"

text \<open>A flag of a listing entry: \<open>repo.get(k, False)\<close> as a truth value.\<close>

definition flag :: "json \<Rightarrow> string \<Rightarrow> bool" where
  "flag repo k = (case dict_get repo k (JBool False) of Inr v \<Rightarrow> truthy v | Inl e \<Rightarrow> False)"

text \<open>
  An entry is kept iff archived implies \<open>include_archived\<close>, private implies
  \<open>include_private\<close>, and not private implies \<open>include_public\<close>.
\<close>

definition keeps :: "bool \<Rightarrow> bool \<Rightarrow> bool \<Rightarrow> json \<Rightarrow> bool" where
  "keeps include_public include_private include_archived repo \<longleftrightarrow>
     (flag repo ''archived'' \<longrightarrow> include_archived)
   \<and> (flag repo ''private'' \<longrightarrow> include_private)
   \<and> (\<not> flag repo ''private'' \<longrightarrow> include_public)"

text \<open>A listing fetch that was not answered with 200.\<close>

fun failed_listing :: "string \<Rightarrow> event \<Rightarrow> bool" where
  "failed_listing organisation (Call rq r) \<longleftrightarrow>
     endpoint rq = OrgRepos organisation \<and> status_code r \<noteq> 200"
| "failed_listing organisation (Slept d) \<longleftrightarrow> False"

text \<open>
  The shape of a discovery run that starts at \<open>page\<close> with \<open>acc\<close>: the requests are
  those of whole passes (a run that raises may end in the guard), and a result is
  \<open>acc\<close> followed by the kept entries of the listing, in the order of the listing.
\<close>

definition run_shape ::
  "'w env \<Rightarrow> bool \<times> bool \<times> bool \<Rightarrow> int \<Rightarrow> json list \<Rightarrow> event list
     \<Rightarrow> py_error + json list \<Rightarrow> bool" where
  "run_shape E flags page acc evs out =
     (\<exists>n. case out of
        Inl e \<Rightarrow> requests evs = page_requests E page n @ [rate_limit_request]
                \<or> requests evs = page_requests E page (Suc n)
      | Inr res \<Rightarrow> requests evs = page_requests E page (Suc n)
          \<and> res = acc @ filter (keeps (fst flags) (fst (snd flags)) (snd (snd flags)))
                         (listed (org E) evs))"

section \<open>Example worlds\<close>

text \<open>
  A world for concrete runs: its state is the epoch second. The quota endpoint gives
  one fixed answer, the listing answers page \<open>p\<close> with the \<open>p\<close>-th of a list of answers
  and with an empty page after them, and the contents endpoint answers from a table of
  files (404 for a file that is not in it).
\<close>

definition quota_body :: "int \<Rightarrow> int \<Rightarrow> json" where
  "quota_body remaining reset_time =
     JDict [(''resources'',
       JDict [(''core'', JDict [(''remaining'', JInt remaining), (''reset'', JInt reset_time)])])]"

definition example_get ::
  "response \<Rightarrow> response list \<Rightarrow> ((json \<times> string) \<times> response) list
     \<Rightarrow> request \<Rightarrow> int \<Rightarrow> response \<times> int" where
  "example_get quota pages files rq w =
     (case endpoint rq of
        RateLimit \<Rightarrow> (quota, w)
      | OrgRepos g \<Rightarrow>
          (case map_of (params rq) ''page'' of
             Some (JInt p) \<Rightarrow>
               (if 1 \<le> p \<and> p \<le> int (length pages) then pages ! nat (p - 1)
                else \<lparr>status_code = 200, body = JList []\<rparr>, w)
           | _ \<Rightarrow> (\<lparr>status_code = 422, body = JNull\<rparr>, w))
      | Contents g repo_name location \<Rightarrow>
          (case map_of files (repo_name, location) of
             Some r \<Rightarrow> (r, w)
           | None \<Rightarrow> (\<lparr>status_code = 404, body = JDict [(''message'', JStr ''Not Found'')]\<rparr>, w)))"

text \<open>
  The base64 texts the examples use, and what they decode to. Every other text raises;
  among them \<open>/w==\<close>, the base64 of the single byte FF, which is not UTF-8.
\<close>

definition example_decode :: "string \<Rightarrow> py_error + string" where
  "example_decode b64 =
     (case map_of [(''KiBAYm9i'', ''* @bob''),
                   (''IyB0ZWFtCkAK'', ''# team\<newline>@\<newline>''),
                   (''IyBvd25lcnMKCg=='', ''# owners\<newline>\<newline>''),
                   (''QHBsYXRmb3JtLXRlYW0K'', ''@platform-team\<newline>''),
                   (''ICAK'', ''  \<newline>''),
                   (''UkVBRE1FLm1kCkA='', ''README.md\<newline>@'')] b64 of
        Some text \<Rightarrow> Inr text
      | None \<Rightarrow> Inl DecodeError)"

definition example_env ::
  "response \<Rightarrow> response list \<Rightarrow> ((json \<times> string) \<times> response) list \<Rightarrow> int env" where
  "example_env quota pages files =
     \<lparr>org = ''acme'',
      http_get = example_get quota pages files,
      clock = (\<lambda>w. w),
      pass_time = (\<lambda>d w. case d of Seconds n \<Rightarrow> w + n | Pacing \<Rightarrow> w),
      b64decode_utf8 = example_decode\<rparr>"

definition ample_quota :: response where
  "ample_quota = \<lparr>status_code = 200, body = quota_body 4999 1700003600\<rparr>"

text \<open>Listing entries: a name, a URL and the two flags.\<close>

definition repo_entry :: "string \<Rightarrow> bool \<Rightarrow> bool \<Rightarrow> json" where
  "repo_entry n private archived =
     JDict [(''name'', JStr n), (''html_url'', JStr (''https://github.com/acme/'' @ n)),
            (''private'', JBool private), (''archived'', JBool archived)]"

definition start :: "int state" where
  "start = \<lparr>world = 1700000000, trace = []\<rparr>"

text \<open>A short page of five entries, and a full page of a hundred.\<close>

definition mixed_page :: "json list" where
  "mixed_page = [repo_entry ''api'' False False, repo_entry ''billing'' True False,
                 repo_entry ''crypt'' True True, repo_entry ''docs'' False True,
                 repo_entry ''web'' False False]"

definition full_page :: "json list" where
  "full_page = replicate 100 (repo_entry ''svc'' False False)"

text \<open>The answer of the example listing to the request for page \<open>p\<close>.\<close>

definition example_page :: "response list \<Rightarrow> int \<Rightarrow> response" where
  "example_page pages p =
     (if 1 \<le> p \<and> p \<le> int (length pages) then pages ! nat (p - 1)
      else \<lparr>status_code = 200, body = JList []\<rparr>)"

section \<open>The quota answer the guard expects\<close>



text \<open>
  Files of the examples: \<open>api\<close> has a CODEOWNERS file at each of the three paths,
  \<open>web\<close> answers 200 with an empty content at the first path and 200 without a
  content at the second and has its file under \<open>docs\<close>, \<open>lone\<close> has a file that
  consists of a comment and the line \<open>@\<close>, \<open>notes\<close> has a file of comments and
  blank lines, \<open>stray\<close> has a file with the line \<open>README.md\<close> before the line
  \<open>@\<close>, the file of \<open>blob\<close> is not UTF-8, and at \<open>tree\<close> the first path is a
  directory, which the contents endpoint answers with a JSON array, and the content of
  \<open>odd\<close> is a number; every other file is missing.
\<close>

definition file_answer :: "string \<Rightarrow> response" where
  "file_answer b64 = \<lparr>status_code = 200, body = JDict [(''type'', JStr ''file''), (''content'', JStr b64)]\<rparr>"

definition example_files :: "((json \<times> string) \<times> response) list" where
  "example_files =
     [((JStr ''api'', ''.github/CODEOWNERS''), file_answer ''KiBAYm9i''),
      ((JStr ''api'', ''CODEOWNERS''), file_answer ''QHBsYXRmb3JtLXRlYW0K''),
      ((JStr ''api'', ''docs/CODEOWNERS''), file_answer ''IyBvd25lcnMKCg==''),
      ((JStr ''web'', ''.github/CODEOWNERS''), file_answer []),
      ((JStr ''web'', ''CODEOWNERS''), \<lparr>status_code = 200, body = JDict [(''type'', JStr ''submodule'')]\<rparr>),
      ((JStr ''web'', ''docs/CODEOWNERS''), file_answer ''QHBsYXRmb3JtLXRlYW0K''),
      ((JStr ''lone'', ''.github/CODEOWNERS''), file_answer ''IyB0ZWFtCkAK''),
      ((JStr ''notes'', ''CODEOWNERS''), file_answer ''IyBvd25lcnMKCg==''),
      ((JStr ''stray'', ''CODEOWNERS''), file_answer ''UkVBRE1FLm1kCkA=''),
      ((JStr ''blob'', ''.github/CODEOWNERS''), file_answer ''/w==''),
      ((JStr ''tree'', ''.github/CODEOWNERS''),
       \<lparr>status_code = 200,
        body = JList [JDict [(''type'', JStr ''file''), (''name'', JStr ''README.md'')]]\<rparr>),
      ((JStr ''odd'', ''.github/CODEOWNERS''),
       \<lparr>status_code = 200, body = JDict [(''content'', JInt 7)]\<rparr>)]"

definition example_org :: "int env" where
  "example_org = example_env ample_quota [] example_files"

text \<open>
  The events of a per-repository run, cut after each pacing delay: one segment for
  each repository that was processed to its end.
\<close>

fun repo_segments :: "event list \<Rightarrow> event list list" where
  "repo_segments [] = []"
| "repo_segments (ev # evs) =
     (if ev = Slept Pacing then [ev] # repo_segments evs
      else (case repo_segments evs of
              [] \<Rightarrow> [[ev]]
            | seg # segs \<Rightarrow> (ev # seg) # segs))"

text \<open>The number of quota probes among events: one for each call of the guard.\<close>

definition guard_calls :: "event list \<Rightarrow> nat" where
  "guard_calls evs = length (filter (\<lambda>rq. endpoint rq = RateLimit) (requests evs))"

text \<open>The record of the example repository \<open>api\<close>.\<close>

definition api_record :: analysis_record where
  "api_record = \<lparr>repository_url = JStr ''https://github.com/acme/api'',
     repository_name = JStr ''api'', has_codeowner_file = True,
     codeowners_file_location = Some ''.github/CODEOWNERS'', primary_owner = ''bob''\<rparr>"

text \<open>
  A qualifying line is a rule: a line that is not skipped and has either exactly one
  token, which begins with \<open>@\<close>, or two or more tokens. Every other line that is not
  skipped is malformed (a single token without \<open>@\<close>).
\<close>

definition qualifying_line :: "string \<Rightarrow> bool" where
  "qualifying_line l \<longleftrightarrow>
     \<not> skipped_line l
   \<and> (let parts = split_ws (strip l) in
        (length parts = 1 \<and> startswith (parts ! 0) ''@'') \<or> 2 \<le> length parts)"

text \<open>
  The owner a rule names: its single token without the \<open>@\<close>, or its second token
  without a leading \<open>@\<close>.
\<close>

definition rule_owner :: "string \<Rightarrow> string" where
  "rule_owner l =
     (let parts = split_ws (strip l) in
      if length parts = 1 then drop 1 (parts ! 0) else strip_at (parts ! 1))"

section \<open>The pacing delay\<close>

text \<open>\<open>time.sleep(0.1)\<close> always returns.\<close>

lemma time_sleep_Pacing: "time_sleep E Pacing s = (Inr (), slept E Pacing s)"
  by (simp add: time_sleep_def)

section \<open>Properties of the parser\<close>

lemma parse_lines_skip:
  "\<forall>x\<in>set pre. skipped_line x \<Longrightarrow> parse_lines (pre @ rest) = parse_lines rest"
  by (induction pre) (auto simp: skipped_line_def Let_def)

lemma strip_last_nonspace: "strip s \<noteq> [] \<Longrightarrow> \<not> isspace (last (strip s))"
  unfolding strip_def by (simp add: last_rev hd_dropWhile)

lemma strip_hd_nonspace: "strip s \<noteq> [] \<Longrightarrow> \<not> isspace (hd (strip s))"
proof -
  assume ne: "strip s \<noteq> []"
  define d where "d = dropWhile isspace s"
  have split: "d = strip s @ rev (takeWhile isspace (rev d))"
    unfolding strip_def d_def
    by (metis rev_append rev_rev_ident takeWhile_dropWhile_id)
  from ne split have "hd (strip s) = hd d" by (metis hd_append2)
  moreover from ne split have "d \<noteq> []" by auto
  then have "\<not> isspace (hd d)" unfolding d_def by (rule hd_dropWhile)
  ultimately show ?thesis by simp
qed

lemma split_ws_Nil_iff: "split_ws s = [] \<longleftrightarrow> (\<forall>c\<in>set s. isspace c)"
proof -
  have "split_ws s = [] \<longleftrightarrow> dropWhile isspace s = []"
    by (subst split_ws.simps) (cases "dropWhile isspace s"; simp del: dropWhile_eq_Nil_conv)
  then show ?thesis by simp
qed

lemma split_ws_nonspace_hd:
  "s \<noteq> [] \<Longrightarrow> \<not> isspace (hd s) \<Longrightarrow>
   split_ws s = takeWhile (\<lambda>x. \<not> isspace x) s # split_ws (dropWhile (\<lambda>x. \<not> isspace x) s)"
  by (subst split_ws.simps) (cases s; simp)

lemma split_ws_strip_single:
  assumes "split_ws (strip l) = [t]"
  shows "strip l = t"
proof -
  define s where "s = strip l"
  define r where "r = dropWhile (\<lambda>x. \<not> isspace x) s"
  define h where "h = takeWhile (\<lambda>x. \<not> isspace x) s"
  have "split_ws [] = []" by (simp add: split_ws_Nil_iff)
  with assms have ne: "s \<noteq> []" unfolding s_def by auto
  have nl: "\<not> isspace (last s)" and nh: "\<not> isspace (hd s)"
    using ne strip_last_nonspace [of l] strip_hd_nonspace [of l] unfolding s_def by blast+
  have "split_ws s = h # split_ws r"
    unfolding h_def r_def by (rule split_ws_nonspace_hd [OF ne nh])
  with assms have t: "t = h" and r: "split_ws r = []" unfolding s_def by simp_all
  have sr: "s = h @ r" unfolding h_def r_def by simp
  have "r = []"
  proof (rule ccontr)
    assume rne: "r \<noteq> []"
    with sr have "last s = last r" by (metis last_appendR)
    moreover from r have "\<forall>c\<in>set r. isspace c" by (simp only: split_ws_Nil_iff)
    with rne have "isspace (last r)" by (meson last_in_set)
    ultimately show False using nl by simp
  qed
  with sr t show ?thesis unfolding s_def by (simp only: append_Nil2)
qed

lemma split_ws_star_alice: "split_ws ''* @alice'' = [''*'', ''@alice'']"
  by (simp add: split_ws.simps isspace_def)

lemma parse_lines_Cons:
  "parse_lines (l # ls) =
     (if skipped_line l then parse_lines ls
      else if startswith (strip l) ''@'' \<and> length (split_ws (strip l)) = 1
      then Some (drop 1 (strip l))
      else if 2 \<le> length (split_ws (strip l))
      then Some (strip_at (split_ws (strip l) ! 1))
      else parse_lines ls)"
  by (simp add: Let_def skipped_line_def strip_at_def)

lemma single_token_is_line:
  assumes "length (split_ws (strip l)) = 1"
  shows "split_ws (strip l) ! 0 = strip l"
proof -
  from assms obtain t where t: "split_ws (strip l) = [t]"
    by (cases "split_ws (strip l)") auto
  have "strip l = t" by (rule split_ws_strip_single [OF t])
  moreover have "split_ws (strip l) ! 0 = t" by (simp only: t nth_Cons_0)
  ultimately show ?thesis by (simp only:)
qed

lemma not_qualifying_continues:
  assumes "\<not> qualifying_line l"
  shows "parse_lines (l # ls) = parse_lines ls"
proof (cases "skipped_line l")
  case True
  then show ?thesis by (simp only: parse_lines_Cons if_True)
next
  case False
  define line where "line = strip l"
  define parts where "parts = split_ws (strip l)"
  from assms False have small: "\<not> 2 \<le> length parts"
    and at: "\<not> (length parts = 1 \<and> startswith (parts ! 0) ''@'')"
    by (simp_all add: qualifying_line_def Let_def parts_def)
  have single: "parts ! 0 = line" if "length parts = 1"
    using that single_token_is_line [of l] by (simp only: parts_def line_def)
  have "\<not> (startswith line ''@'' \<and> length parts = 1)"
    using at single by auto
  with small False show ?thesis
    unfolding parse_lines_Cons line_def parts_def by auto
qed

lemma qualifying_decides:
  assumes "qualifying_line l"
  shows "parse_lines (l # ls) = Some (rule_owner l)"
proof -
  define line where "line = strip l"
  define parts where "parts = split_ws (strip l)"
  from assms have ns: "\<not> skipped_line l"
    and q: "(length parts = 1 \<and> startswith (parts ! 0) ''@'') \<or> 2 \<le> length parts"
    by (simp_all add: qualifying_line_def Let_def parts_def)
  have single: "parts ! 0 = line" if "length parts = 1"
    using that single_token_is_line [of l] by (simp only: parts_def line_def)
  have run: "parse_lines (l # ls) =
     (if startswith line ''@'' \<and> length parts = 1 then Some (drop 1 line)
      else if 2 \<le> length parts then Some (strip_at (parts ! 1))
      else parse_lines ls)"
    using ns unfolding parse_lines_Cons line_def parts_def by auto
  have owner: "rule_owner l = (if length parts = 1 then drop 1 (parts ! 0) else strip_at (parts ! 1))"
    by (simp add: rule_owner_def parts_def Let_def)
  from q show ?thesis
  proof
    assume a: "length parts = 1 \<and> startswith (parts ! 0) ''@''"
    with single have "startswith line ''@''" "parts ! 0 = line" by auto
    with a show ?thesis unfolding run owner by simp
  next
    assume "2 \<le> length parts"
    then show ?thesis unfolding run owner by simp
  qed
qed

lemma parse_lines_pass:
  "\<forall>x\<in>set pre. \<not> qualifying_line x \<Longrightarrow> parse_lines (pre @ rest) = parse_lines rest"
proof (induction pre)
  case Nil
  show ?case by simp
next
  case (Cons x pre)
  then show ?case using not_qualifying_continues [of x "pre @ rest"] by simp
qed

lemma parse_lines_find:
  "parse_lines ls = (case List.find qualifying_line ls of
                       None \<Rightarrow> None
                     | Some l \<Rightarrow> Some (rule_owner l))"
proof (induction ls)
  case Nil
  show ?case by simp
next
  case (Cons l ls)
  show ?case
  proof (cases "qualifying_line l")
    case True
    then show ?thesis using qualifying_decides [of l ls] by simp
  next
    case False
    then show ?thesis using not_qualifying_continues [of l ls] Cons.IH by simp
  qed
qed

lemma parse_find:
  "parse_primary_codeowner content
     = (case List.find qualifying_line (split_on CHR 0x0A (strip content)) of
          None \<Rightarrow> None
        | Some l \<Rightarrow> Some (rule_owner l))"
proof (cases "content = []")
  case True
  have "\<not> qualifying_line []"
    by (simp add: qualifying_line_def skipped_line_def strip_def)
  with True show ?thesis
    by (simp add: parse_primary_codeowner_def strip_def)
next
  case False
  then show ?thesis by (simp add: parse_primary_codeowner_def parse_lines_find)
qed

lemma parse_at_rule:
  assumes lines: "split_on CHR 0x0A (strip content) = pre @ l # post"
    and before: "\<forall>x\<in>set pre. \<not> qualifying_line x"
    and rule: "qualifying_line l"
  shows "parse_primary_codeowner content = Some (rule_owner l)"
proof -
  have "content \<noteq> []"
  proof
    assume "content = []"
    then have "split_on CHR 0x0A (strip content) = [[]]" by (simp add: strip_def)
    with lines have "pre = [] \<and> l = []" by (cases pre) auto
    with rule show False by (simp add: qualifying_line_def skipped_line_def strip_def)
  qed
  with lines parse_lines_pass [OF before] qualifying_decides [OF rule] show ?thesis
    by (simp add: parse_primary_codeowner_def)
qed

text \<open>
  C1: \<open>parse_primary_codeowner\<close> scans the lines of the trimmed content and returns
  at the first qualifying line, passing over every line before it, skipped (empty after
  trimming, or a comment) or malformed: a single token that begins with \<open>@\<close> is
  returned without the \<open>@\<close>; of two or more tokens the second is returned, without a
  leading \<open>@\<close> if it has one; with no qualifying line the result is \<open>None\<close>.
  Content whose first qualifying line is \<open>* @alice\<close> parses to \<open>alice\<close>.
\<close>

theorem first_qualifying_line_decides:
  "parse_primary_codeowner content
     = (case List.find qualifying_line (split_on CHR 0x0A (strip content)) of
          None \<Rightarrow> None
        | Some l \<Rightarrow> Some (rule_owner l))
   \<and> (split_on CHR 0x0A (strip content) = pre @ l # post
        \<and> (\<forall>x\<in>set pre. \<not> qualifying_line x) \<and> qualifying_line l \<longrightarrow>
        (\<forall>t. split_ws (strip l) = [t] \<and> startswith t ''@'' \<longrightarrow>
            parse_primary_codeowner content = Some (drop 1 t))
      \<and> (2 \<le> length (split_ws (strip l)) \<longrightarrow>
            parse_primary_codeowner content = Some (strip_at (split_ws (strip l) ! 1)))
      \<and> (strip l = ''* @alice'' \<longrightarrow> parse_primary_codeowner content = Some ''alice''))"
proof (intro conjI impI allI)
  show "parse_primary_codeowner content
     = (case List.find qualifying_line (split_on CHR 0x0A (strip content)) of
          None \<Rightarrow> None
        | Some l \<Rightarrow> Some (rule_owner l))"
    by (rule parse_find)
next
  fix t
  assume a: "split_on CHR 0x0A (strip content) = pre @ l # post
        \<and> (\<forall>x\<in>set pre. \<not> qualifying_line x) \<and> qualifying_line l"
    and t: "split_ws (strip l) = [t] \<and> startswith t ''@''"
  from a have "parse_primary_codeowner content = Some (rule_owner l)"
    by (blast intro: parse_at_rule)
  with t show "parse_primary_codeowner content = Some (drop 1 t)"
    by (simp add: rule_owner_def)
next
  assume a: "split_on CHR 0x0A (strip content) = pre @ l # post
        \<and> (\<forall>x\<in>set pre. \<not> qualifying_line x) \<and> qualifying_line l"
    and two: "2 \<le> length (split_ws (strip l))"
  from a have "parse_primary_codeowner content = Some (rule_owner l)"
    by (blast intro: parse_at_rule)
  with two show "parse_primary_codeowner content = Some (strip_at (split_ws (strip l) ! 1))"
    by (simp add: rule_owner_def)
next
  assume a: "split_on CHR 0x0A (strip content) = pre @ l # post
        \<and> (\<forall>x\<in>set pre. \<not> qualifying_line x) \<and> qualifying_line l"
    and alice: "strip l = ''* @alice''"
  from a have "parse_primary_codeowner content = Some (rule_owner l)"
    by (blast intro: parse_at_rule)
  moreover have "split_ws ''* @alice'' = [''*'', ''@alice'']"
    by (rule split_ws_star_alice)
  ultimately show "parse_primary_codeowner content = Some ''alice''"
    using alice by (simp add: rule_owner_def strip_at_def startswith_def)
qed

theorem first_qualifying_line_decides_witness:
  "parse_primary_codeowner ''README.md\<newline>* @alice'' = Some ''alice''
   \<and> parse_primary_codeowner ''# owners\<newline>\<newline>LICENSE\<newline>  * @alice @bob\<newline>docs/ @carol\<newline>''
       = Some ''alice''
   \<and> parse_primary_codeowner ''\<newline># team rule\<newline>@platform-team\<newline>* @bob''
       = Some ''platform-team''
   \<and> parse_primary_codeowner ''/docs/ jane'' = Some ''jane''
   \<and> parse_primary_codeowner ''# nothing\<newline>README.md\<newline>'' = None"
proof -
  have tok: "split_ws ''README.md'' = [''README.md'']" "split_ws ''LICENSE'' = [''LICENSE'']"
    "split_ws ''* @alice'' = [''*'', ''@alice'']"
    "split_ws ''* @alice @bob'' = [''*'', ''@alice'', ''@bob'']"
    "split_ws ''@platform-team'' = [''@platform-team'']"
    "split_ws ''/docs/ jane'' = [''/docs/'', ''jane'']"
    "split_ws ''# owners'' = [''#'', ''owners'']" "split_ws ''# team rule'' = [''#'', ''team'', ''rule'']"
    "split_ws ''# nothing'' = [''#'', ''nothing'']" "split_ws [] = []"
    by (simp_all add: split_ws.simps isspace_def)
  have st: "strip ''README.md'' = ''README.md''" "strip ''LICENSE'' = ''LICENSE''"
    "strip ''* @alice'' = ''* @alice''" "strip ''  * @alice @bob'' = ''* @alice @bob''"
    "strip ''@platform-team'' = ''@platform-team''" "strip ''/docs/ jane'' = ''/docs/ jane''"
    "strip ''# owners'' = ''# owners''" "strip ''# team rule'' = ''# team rule''"
    "strip ''# nothing'' = ''# nothing''" "strip [] = []"
    by (simp_all add: strip_def isspace_def)
  have nq: "\<not> qualifying_line ''README.md''" "\<not> qualifying_line ''LICENSE''"
    "\<not> qualifying_line ''# owners''" "\<not> qualifying_line []"
    "\<not> qualifying_line ''# team rule''" "\<not> qualifying_line ''# nothing''"
    by (simp_all add: qualifying_line_def skipped_line_def st tok startswith_def)
  have q: "qualifying_line ''* @alice''" "qualifying_line ''  * @alice @bob''"
    "qualifying_line ''@platform-team''" "qualifying_line ''/docs/ jane''"
    by (simp_all add: qualifying_line_def skipped_line_def st tok startswith_def)
  have l1: "split_on CHR 0x0A (strip ''README.md\<newline>* @alice'') = [''README.md''] @ ''* @alice'' # []"
    by (simp add: strip_def isspace_def)
  have l2: "split_on CHR 0x0A (strip ''# owners\<newline>\<newline>LICENSE\<newline>  * @alice @bob\<newline>docs/ @carol\<newline>'')
      = [''# owners'', [], ''LICENSE''] @ ''  * @alice @bob'' # [''docs/ @carol'']"
    by (simp add: strip_def isspace_def)
  have l3: "split_on CHR 0x0A (strip ''\<newline># team rule\<newline>@platform-team\<newline>* @bob'')
      = [''# team rule''] @ ''@platform-team'' # [''* @bob'']"
    by (simp add: strip_def isspace_def)
  have l4: "split_on CHR 0x0A (strip ''/docs/ jane'') = [] @ ''/docs/ jane'' # []"
    by (simp add: strip_def isspace_def)
  have l5: "split_on CHR 0x0A (strip ''# nothing\<newline>README.md\<newline>'') = [''# nothing'', ''README.md'']"
    by (simp add: strip_def isspace_def)
  have p1: "\<forall>x\<in>set [''README.md'']. \<not> qualifying_line x" using nq by simp
  have p2: "\<forall>x\<in>set [''# owners'', [], ''LICENSE'']. \<not> qualifying_line x" using nq by simp
  have p3: "\<forall>x\<in>set [''# team rule'']. \<not> qualifying_line x" using nq by simp
  have p4: "\<forall>x\<in>set ([] :: string list). \<not> qualifying_line x" by simp
  note t1 = first_qualifying_line_decides
      [of "''README.md\<newline>* @alice''" "[''README.md'']" "''* @alice''" "[]",
       THEN conjunct2, THEN mp, OF conjI [OF l1 conjI [OF p1 q(1)]]]
  note t2 = first_qualifying_line_decides
      [of "''# owners\<newline>\<newline>LICENSE\<newline>  * @alice @bob\<newline>docs/ @carol\<newline>''"
          "[''# owners'', [], ''LICENSE'']" "''  * @alice @bob''" "[''docs/ @carol'']",
       THEN conjunct2, THEN mp, OF conjI [OF l2 conjI [OF p2 q(2)]]]
  note t3 = first_qualifying_line_decides
      [of "''\<newline># team rule\<newline>@platform-team\<newline>* @bob''" "[''# team rule'']"
          "''@platform-team''" "[''* @bob'']",
       THEN conjunct2, THEN mp, OF conjI [OF l3 conjI [OF p3 q(3)]]]
  note t4 = first_qualifying_line_decides
      [of "''/docs/ jane''" "[]" "''/docs/ jane''" "[]",
       THEN conjunct2, THEN mp, OF conjI [OF l4 conjI [OF p4 q(4)]]]
  have a: "parse_primary_codeowner ''README.md\<newline>* @alice'' = Some ''alice''"
    by (rule t1 [THEN conjunct2, THEN conjunct2, THEN mp, OF st(3)])
  have "2 \<le> length (split_ws (strip ''  * @alice @bob''))" by (simp add: st tok)
  from t2 [THEN conjunct2, THEN conjunct1, THEN mp, OF this]
  have b: "parse_primary_codeowner ''# owners\<newline>\<newline>LICENSE\<newline>  * @alice @bob\<newline>docs/ @carol\<newline>''
      = Some ''alice''"
    by (simp add: st tok strip_at_def startswith_def)
  have "split_ws (strip ''@platform-team'') = [''@platform-team'']
      \<and> startswith ''@platform-team'' ''@''"
    by (simp add: st tok startswith_def)
  from t3 [THEN conjunct1, THEN spec, THEN mp, OF this]
  have c: "parse_primary_codeowner ''\<newline># team rule\<newline>@platform-team\<newline>* @bob''
      = Some ''platform-team''"
    by simp
  have "2 \<le> length (split_ws (strip ''/docs/ jane''))" by (simp add: st tok)
  from t4 [THEN conjunct2, THEN conjunct1, THEN mp, OF this]
  have d: "parse_primary_codeowner ''/docs/ jane'' = Some ''jane''"
    by (simp add: st tok strip_at_def startswith_def)
  have e: "parse_primary_codeowner ''# nothing\<newline>README.md\<newline>'' = None"
    using first_qualifying_line_decides
      [of "''# nothing\<newline>README.md\<newline>''" "[]" "[]" "[]", THEN conjunct1]
    by (simp add: l5 nq)
  from a b c d e show ?thesis by blast
qed

section \<open>Properties of repository discovery\<close>

lemma requests_append: "requests (a @ b) = requests a @ requests b"
  by (induction a rule: requests.induct) simp_all

lemma listed_append: "listed g (a @ b) = listed g a @ listed g b"
  by (induction g a rule: listed.induct) simp_all

lemma session_get_trace:
  "session_get E rq s = (r, s1) \<Longrightarrow> trace s1 = trace s @ [Call rq r]"
  by (auto simp: session_get_def split: prod.splits)

lemma check_rate_limit_trace:
  assumes "check_rate_limit E s = (out, s1)"
  shows "\<exists>evs. trace s1 = trace s @ evs \<and> requests evs = [rate_limit_request]
           \<and> listed g evs = []"
proof -
  obtain r s0 where g: "session_get E rate_limit_request s = (r, s0)"
    by (cases "session_get E rate_limit_request s")
  have t0: "trace s0 = trace s @ [Call rate_limit_request r]"
    by (rule session_get_trace [OF g])
  from assms g have "s1 = s0 \<or> (\<exists>w. s1 = slept E (Seconds w) s0)"
    by (auto simp: check_rate_limit_def time_sleep_def split: if_splits sum.splits option.splits)
  then show ?thesis
  proof
    assume "s1 = s0"
    with t0 show ?thesis by (simp add: rate_limit_request_def)
  next
    assume "\<exists>w. s1 = slept E (Seconds w) s0"
    then obtain w where "s1 = slept E (Seconds w) s0" ..
    with t0 have "trace s1 = trace s @ [Call rate_limit_request r, Slept (Seconds w)]"
      by (simp add: slept_def)
    then show ?thesis by (simp add: rate_limit_request_def)
  qed
qed

lemma filter_repos_step:
  "filter_repos ip ipr ia acc (JDict kvs # rest) =
     filter_repos ip ipr ia (if keeps ip ipr ia (JDict kvs) then acc @ [JDict kvs] else acc) rest"
  by (simp add: keeps_def flag_def)

lemma filter_repos_objects:
  "\<forall>e\<in>set entries. is_object e \<Longrightarrow>
   filter_repos ip ipr ia acc entries = Inr (acc @ filter (keeps ip ipr ia) entries)"
proof (induction entries arbitrary: acc)
  case Nil
  show ?case by simp
next
  case (Cons repo rest)
  from Cons.prems obtain kvs where repo: "repo = JDict kvs"
    by (auto simp: is_object_def split: json.splits)
  from Cons.prems have rest: "\<forall>e\<in>set rest. is_object e" by simp
  show ?case
    unfolding repo filter_repos_step by (simp add: Cons.IH [OF rest])
qed

lemma filter_repos_Inr_objects:
  "filter_repos ip ipr ia acc entries = Inr kept \<Longrightarrow> \<forall>e\<in>set entries. is_object e"
proof (induction entries arbitrary: acc)
  case Nil
  show ?case by simp
next
  case (Cons repo rest)
  show ?case
  proof (cases repo)
    case (JDict kvs)
    with Cons.prems Cons.IH show ?thesis
      by (auto simp: is_object_def split: if_splits)
  qed (use Cons.prems in simp_all)
qed

lemma filter_repos_Inr:
  "filter_repos ip ipr ia [] entries = Inr kept \<Longrightarrow> kept = filter (keeps ip ipr ia) entries"
  using filter_repos_objects [OF filter_repos_Inr_objects, of ip ipr ia "[]" entries kept ip ipr ia "[]"]
  by simp

lemma falsy_iter: "\<not> truthy v \<Longrightarrow> py_iter v = Inr xs \<Longrightarrow> xs = []"
  by (cases v) auto

text \<open>What one pass adds to the trace and to the repositories.\<close>

lemma page_pass_run:
  assumes "page_pass E flags page acc s = (out, s2)"
  shows "\<exists>evs. trace s2 = trace s @ evs
          \<and> (case out of
                Inl e \<Rightarrow> requests evs = [rate_limit_request]
                        \<or> requests evs = [rate_limit_request, listing_request E page]
              | Inr (x, acc') \<Rightarrow>
                  requests evs = [rate_limit_request, listing_request E page]
                  \<and> acc' = acc @ filter (keeps (fst flags) (fst (snd flags)) (snd (snd flags)))
                                   (listed (org E) evs))"
proof -
  obtain g s1 where guard: "check_rate_limit E s = (g, s1)"
    by (cases "check_rate_limit E s")
  from check_rate_limit_trace [OF guard, of "org E"] obtain evs1 where
    t1: "trace s1 = trace s @ evs1" and r1: "requests evs1 = [rate_limit_request]"
    and l1: "listed (org E) evs1 = []" by blast
  show ?thesis
  proof (cases g)
    case (Inl e)
    with assms guard have "out = Inl e" "s2 = s1" by (simp_all add: page_pass_def)
    with t1 r1 show ?thesis by auto
  next
    case (Inr u)
    obtain r s2' where fetch: "session_get E (listing_request E page) s1 = (r, s2')"
      by (cases "session_get E (listing_request E page) s1")
    have t2: "trace s2' = trace s1 @ [Call (listing_request E page) r]"
      by (rule session_get_trace [OF fetch])
    from assms guard Inr fetch have s2: "s2 = s2'"
      by (auto simp: page_pass_def split: if_splits sum.splits)
    let ?evs = "evs1 @ [Call (listing_request E page) r]"
    have tr: "trace s2 = trace s @ ?evs" using t1 t2 s2 by simp
    have rq: "requests ?evs = [rate_limit_request, listing_request E page]"
      using r1 by (simp add: requests_append)
    have out: "case out of Inl e \<Rightarrow> True
       | Inr (x, acc') \<Rightarrow> acc' = acc @ filter (keeps (fst flags) (fst (snd flags)) (snd (snd flags)))
                                   (listed (org E) ?evs)"
      using assms guard Inr fetch l1
      by (auto simp: page_pass_def listed_append listing_request_def
               split: if_splits sum.splits dest: filter_repos_Inr falsy_iter)
    from tr rq out show ?thesis
      by (intro exI [of _ ?evs]) (auto split: sum.splits)
  qed
qed


lemma page_requests_0: "page_requests E page 0 = []"
  by (simp add: page_requests_def)

lemma page_requests_Suc:
  "page_requests E page (Suc n) =
     [rate_limit_request, listing_request E page] @ page_requests E (page + 1) n"
proof -
  have "[0..<Suc n] = 0 # map Suc [0..<n]"
    by (simp add: upt_conv_Cons map_Suc_upt del: upt_Suc)
  then have "page_requests E page (Suc n) =
      [rate_limit_request, listing_request E page]
      @ concat (map (\<lambda>k. [rate_limit_request, listing_request E (page + int (Suc k))]) [0..<n])"
    unfolding page_requests_def by (simp add: comp_def del: upt_Suc)
  also have "(\<lambda>k. [rate_limit_request, listing_request E (page + int (Suc k))])
      = (\<lambda>k. [rate_limit_request, listing_request E (page + 1 + int k)])"
    by (simp add: add.assoc)
  finally show ?thesis by (simp add: page_requests_def)
qed

lemma fetch_pages_run:
  assumes "fetch_pages E flags page acc s = Some y"
  shows "\<exists>evs. trace (snd y) = trace s @ evs \<and> run_shape E flags page acc evs (fst y)"
proof (rule fetch_pages.raw_induct
    [where P = "\<lambda>E flags page acc s y.
       \<exists>evs. trace (snd y) = trace s @ evs \<and> run_shape E flags page acc evs (fst y)",
     OF _ assms])
  fix f :: "'a env \<Rightarrow> bool \<times> bool \<times> bool \<Rightarrow> int \<Rightarrow> json list \<Rightarrow> 'a state
             \<Rightarrow> ((py_error + json list) \<times> 'a state) option"
    and E flags page acc s y
  assume IH: "\<And>E flags page acc s y. f E flags page acc s = Some y \<Longrightarrow>
      \<exists>evs. trace (snd y) = trace s @ evs \<and> run_shape E flags page acc evs (fst y)"
    and body: "(case page_pass E flags page acc s of
        (Inl e, s2) \<Rightarrow> Some (Inl e, s2)
      | (Inr (Break, repositories'), s2) \<Rightarrow> Some (Inr repositories', s2)
      | (Inr (Continue, repositories'), s2) \<Rightarrow> f E flags (page + 1) repositories' s2) = Some y"
  obtain out s2 where pass: "page_pass E flags page acc s = (out, s2)"
    by (cases "page_pass E flags page acc s")
  from page_pass_run [OF pass] obtain evs where
    t: "trace s2 = trace s @ evs" and
    sh: "case out of
           Inl e \<Rightarrow> requests evs = [rate_limit_request]
                   \<or> requests evs = [rate_limit_request, listing_request E page]
         | Inr (x, acc') \<Rightarrow>
             requests evs = [rate_limit_request, listing_request E page]
             \<and> acc' = acc @ filter (keeps (fst flags) (fst (snd flags)) (snd (snd flags)))
                              (listed (org E) evs)"
    by blast
  show "\<exists>evs. trace (snd y) = trace s @ evs \<and> run_shape E flags page acc evs (fst y)"
  proof (cases out)
    case (Inl e)
    with body pass have y: "y = (Inl e, s2)" by simp
    from sh Inl have "run_shape E flags page acc evs (Inl e)"
      unfolding run_shape_def
      by (intro exI [of _ 0]) (auto simp: page_requests_0 page_requests_Suc)
    with t y show ?thesis by auto
  next
    case (Inr p)
    obtain x acc' where p: "p = (x, acc')" by (cases p)
    from sh Inr p have rq: "requests evs = [rate_limit_request, listing_request E page]"
      and acc': "acc' = acc @ filter (keeps (fst flags) (fst (snd flags)) (snd (snd flags)))
                              (listed (org E) evs)"
      by simp_all
    show ?thesis
    proof (cases x)
      case Break
      with body pass Inr p have y: "y = (Inr acc', s2)" by simp
      from rq acc' have "run_shape E flags page acc evs (Inr acc')"
        unfolding run_shape_def
        by (intro exI [of _ 0]) (simp add: page_requests_0 page_requests_Suc)
      with t y show ?thesis by auto
    next
      case Continue
      with body pass Inr p have "f E flags (page + 1) acc' s2 = Some y" by simp
      from IH [OF this] obtain evs2 where
        t2: "trace (snd y) = trace s2 @ evs2" and
        sh2: "run_shape E flags (page + 1) acc' evs2 (fst y)" by blast
      from sh2 obtain n where n: "case fst y of
        Inl e \<Rightarrow> requests evs2 = page_requests E (page + 1) n @ [rate_limit_request]
                \<or> requests evs2 = page_requests E (page + 1) (Suc n)
      | Inr res \<Rightarrow> requests evs2 = page_requests E (page + 1) (Suc n)
          \<and> res = acc' @ filter (keeps (fst flags) (fst (snd flags)) (snd (snd flags)))
                         (listed (org E) evs2)"
        unfolding run_shape_def by blast
      have "run_shape E flags page acc (evs @ evs2) (fst y)"
        unfolding run_shape_def
        using n rq acc'
        by (intro exI [of _ "Suc n"])
           (auto simp: requests_append listed_append page_requests_Suc [of E page] split: sum.splits)
      with t t2 show ?thesis by auto
    qed
  qed
qed

lemma check_rate_limit_events:
  assumes "check_rate_limit E s = (out, s1)"
  shows "\<exists>evs. trace s1 = trace s @ evs \<and> evs \<noteq> [] \<and> (\<forall>ev\<in>set evs. \<not> failed_listing g ev)"
proof -
  obtain r s0 where g: "session_get E rate_limit_request s = (r, s0)"
    by (cases "session_get E rate_limit_request s")
  have t0: "trace s0 = trace s @ [Call rate_limit_request r]"
    by (rule session_get_trace [OF g])
  from assms g have "s1 = s0 \<or> (\<exists>w. s1 = slept E (Seconds w) s0)"
    by (auto simp: check_rate_limit_def time_sleep_def split: if_splits sum.splits option.splits)
  with t0 show ?thesis
    by (auto simp: rate_limit_request_def slept_def)
qed

text \<open>The events of one pass: only the last one can be a failed listing fetch, and
  then the pass leaves the loop without raising and with the repositories unchanged.\<close>

lemma page_pass_failure:
  assumes "page_pass E flags page acc s = (out, s2)"
  shows "\<exists>evs. trace s2 = trace s @ evs \<and> evs \<noteq> []
          \<and> (\<forall>ev\<in>set (butlast evs). \<not> failed_listing (org E) ev)
          \<and> (failed_listing (org E) (last evs) \<longrightarrow> out = Inr (Break, acc))
          \<and> ((\<exists>acc'. out = Inr (Continue, acc')) \<longrightarrow> \<not> failed_listing (org E) (last evs))"
proof -
  obtain g s1 where guard: "check_rate_limit E s = (g, s1)"
    by (cases "check_rate_limit E s")
  from check_rate_limit_events [OF guard, of "org E"] obtain evs1 where
    t1: "trace s1 = trace s @ evs1" and ne: "evs1 \<noteq> []"
    and ok1: "\<forall>ev\<in>set evs1. \<not> failed_listing (org E) ev" by blast
  show ?thesis
  proof (cases g)
    case (Inl e)
    with assms guard have "out = Inl e" "s2 = s1" by (simp_all add: page_pass_def)
    with t1 ne ok1 show ?thesis
      by (intro exI [of _ evs1]) (auto dest: in_set_butlastD)
  next
    case (Inr u)
    obtain r s2' where fetch: "session_get E (listing_request E page) s1 = (r, s2')"
      by (cases "session_get E (listing_request E page) s1")
    have t2: "trace s2' = trace s1 @ [Call (listing_request E page) r]"
      by (rule session_get_trace [OF fetch])
    from assms guard Inr fetch have s2: "s2 = s2'"
      by (auto simp: page_pass_def split: if_splits sum.splits)
    let ?evs = "evs1 @ [Call (listing_request E page) r]"
    have tr: "trace s2 = trace s @ ?evs" using t1 t2 s2 by simp
    have out: "(status_code r \<noteq> 200 \<longrightarrow> out = Inr (Break, acc))
        \<and> ((\<exists>acc'. out = Inr (Continue, acc')) \<longrightarrow> status_code r = 200)"
      using assms guard Inr fetch
      by (auto simp: page_pass_def split: if_splits sum.splits)
    from tr ok1 out show ?thesis
      by (intro exI [of _ ?evs]) (auto simp: listing_request_def)
  qed
qed

lemma fetch_pages_failure:
  assumes "fetch_pages E flags page acc s = Some y"
  shows "\<exists>evs. trace (snd y) = trace s @ evs \<and> evs \<noteq> []
          \<and> (\<forall>ev\<in>set (butlast evs). \<not> failed_listing (org E) ev)
          \<and> (failed_listing (org E) (last evs) \<longrightarrow> (\<exists>res. fst y = Inr res))"
proof (rule fetch_pages.raw_induct
    [where P = "\<lambda>E flags page acc s y.
       \<exists>evs. trace (snd y) = trace s @ evs \<and> evs \<noteq> []
          \<and> (\<forall>ev\<in>set (butlast evs). \<not> failed_listing (org E) ev)
          \<and> (failed_listing (org E) (last evs) \<longrightarrow> (\<exists>res. fst y = Inr res))",
     OF _ assms])
  fix f :: "'a env \<Rightarrow> bool \<times> bool \<times> bool \<Rightarrow> int \<Rightarrow> json list \<Rightarrow> 'a state
             \<Rightarrow> ((py_error + json list) \<times> 'a state) option"
    and E flags page acc s y
  assume IH: "\<And>E flags page acc s y. f E flags page acc s = Some y \<Longrightarrow>
      \<exists>evs. trace (snd y) = trace s @ evs \<and> evs \<noteq> []
          \<and> (\<forall>ev\<in>set (butlast evs). \<not> failed_listing (org E) ev)
          \<and> (failed_listing (org E) (last evs) \<longrightarrow> (\<exists>res. fst y = Inr res))"
    and body: "(case page_pass E flags page acc s of
        (Inl e, s2) \<Rightarrow> Some (Inl e, s2)
      | (Inr (Break, repositories'), s2) \<Rightarrow> Some (Inr repositories', s2)
      | (Inr (Continue, repositories'), s2) \<Rightarrow> f E flags (page + 1) repositories' s2) = Some y"
  obtain out s2 where pass: "page_pass E flags page acc s = (out, s2)"
    by (cases "page_pass E flags page acc s")
  from page_pass_failure [OF pass] obtain evs where
    t: "trace s2 = trace s @ evs" and ne: "evs \<noteq> []"
    and bl: "\<forall>ev\<in>set (butlast evs). \<not> failed_listing (org E) ev"
    and la: "failed_listing (org E) (last evs) \<longrightarrow> out = Inr (Break, acc)"
    and co: "(\<exists>acc'. out = Inr (Continue, acc')) \<longrightarrow> \<not> failed_listing (org E) (last evs)"
    by blast
  show "\<exists>evs. trace (snd y) = trace s @ evs \<and> evs \<noteq> []
          \<and> (\<forall>ev\<in>set (butlast evs). \<not> failed_listing (org E) ev)
          \<and> (failed_listing (org E) (last evs) \<longrightarrow> (\<exists>res. fst y = Inr res))"
  proof (cases "\<exists>acc'. out = Inr (Continue, acc')")
    case True
    then obtain acc' where out: "out = Inr (Continue, acc')" ..
    with body pass have "f E flags (page + 1) acc' s2 = Some y" by simp
    from IH [OF this] obtain evs2 where
      t2: "trace (snd y) = trace s2 @ evs2" and ne2: "evs2 \<noteq> []"
      and bl2: "\<forall>ev\<in>set (butlast evs2). \<not> failed_listing (org E) ev"
      and la2: "failed_listing (org E) (last evs2) \<longrightarrow> (\<exists>res. fst y = Inr res)"
      by blast
    from co True have nl: "\<not> failed_listing (org E) (last evs)" by blast
    have all1: "\<forall>ev\<in>set evs. \<not> failed_listing (org E) ev"
    proof
      fix ev assume "ev \<in> set evs"
      with ne have "ev \<in> set (butlast evs) \<or> ev = last evs"
        by (metis append_butlast_last_id insert_iff list.set(2) rotate1.simps(2) set_rotate1)
      with bl nl show "\<not> failed_listing (org E) ev" by blast
    qed
    have "butlast (evs @ evs2) = evs @ butlast evs2" using ne2 by (simp add: butlast_append)
    with all1 bl2 have "\<forall>ev\<in>set (butlast (evs @ evs2)). \<not> failed_listing (org E) ev" by auto
    moreover have "last (evs @ evs2) = last evs2" using ne2 by simp
    ultimately show ?thesis using t t2 ne2 la2
      by (intro exI [of _ "evs @ evs2"]) simp
  next
    case False
    with body pass la have y: "snd y = s2" "failed_listing (org E) (last evs) \<longrightarrow> (\<exists>res. fst y = Inr res)"
      by (auto split: sum.splits loop_exit.splits prod.splits)
    with t ne bl show ?thesis by (intro exI [of _ evs]) simp
  qed
qed

subsection \<open>Concrete runs\<close>

lemma mixed_run:
  "get_repositories (example_env ample_quota [\<lparr>status_code = 200, body = JList mixed_page\<rparr>] [])
      True False True start
   = Some (Inr [repo_entry ''api'' False False, repo_entry ''docs'' False True,
                repo_entry ''web'' False False],
           \<lparr>world = 1700000000,
            trace = [Call rate_limit_request ample_quota,
                     Call (listing_request (example_env ample_quota [\<lparr>status_code = 200, body = JList mixed_page\<rparr>] []) 1)
                       \<lparr>status_code = 200, body = JList mixed_page\<rparr>]\<rparr>)"
  unfolding get_repositories_def
  apply (subst fetch_pages.simps)
  apply (simp add: page_pass_def check_rate_limit_def session_get_def example_env_def
      example_get_def rate_limit_request_def listing_request_def ample_quota_def quota_wait_def
      quota_body_def start_def mixed_page_def repo_entry_def per_page_def)
  done

lemma full_page_facts:
  "length full_page = 100" "\<forall>e\<in>set full_page. is_object e"
  "filter (keeps ip True ia) full_page = (if ip then full_page else [])" "full_page \<noteq> []"
  by (auto simp: full_page_def repo_entry_def is_object_def keeps_def flag_def)

lemma example_guard:
  "check_rate_limit (example_env ample_quota pages files) s
     = (Inr (), \<lparr>world = world s, trace = trace s @ [Call rate_limit_request ample_quota]\<rparr>)"
  by (simp add: check_rate_limit_def session_get_def example_env_def example_get_def
      rate_limit_request_def ample_quota_def quota_wait_def quota_body_def)

lemma example_fetch:
  "session_get (example_env quota pages files) (listing_request (example_env quota pages files) p) s
     = (example_page pages p,
        \<lparr>world = world s,
         trace = trace s @ [Call (listing_request (example_env quota pages files) p)
                              (example_page pages p)]\<rparr>)"
  by (simp add: session_get_def example_env_def example_get_def listing_request_def
      example_page_def)

lemma listed_failed: "failed_listing g ev \<Longrightarrow> listed g [ev] = []"
  by (cases ev) simp_all

subsection \<open>Filter, pagination and failed fetches\<close>

text \<open>
  C3: for every page of listing entries and every combination of the three flags, the
  filter keeps an entry iff archived implies \<open>include_archived\<close>, private implies
  \<open>include_private\<close> and not private implies \<open>include_public\<close>. What
  \<open>get_repositories\<close> returns is the entries the listing delivered, in the order it
  delivered them, without those the filter drops; with \<open>include_private\<close> false no
  private entry is among them, archived or not.
\<close>

theorem discovery_keeps_by_filters:
  "((\<forall>e\<in>set entries. is_object e) \<longrightarrow>
      filter_repos include_public include_private include_archived [] entries
        = Inr (filter (keeps include_public include_private include_archived) entries))
   \<and> (get_repositories E include_public include_private include_archived s
         = Some (Inr repositories, s') \<longrightarrow>
       (\<exists>evs. trace s' = trace s @ evs
          \<and> repositories = filter (keeps include_public include_private include_archived)
                             (listed (org E) evs)
          \<and> (\<not> include_private \<longrightarrow> (\<forall>repo\<in>set repositories. \<not> flag repo ''private''))))"
proof (intro conjI impI)
  assume "\<forall>e\<in>set entries. is_object e"
  from filter_repos_objects [OF this, of include_public include_private include_archived "[]"]
  show "filter_repos include_public include_private include_archived [] entries
        = Inr (filter (keeps include_public include_private include_archived) entries)"
    by simp
next
  assume "get_repositories E include_public include_private include_archived s
         = Some (Inr repositories, s')"
  then have run: "fetch_pages E (include_public, include_private, include_archived) 1 [] s
      = Some (Inr repositories, s')"
    by (simp add: get_repositories_def)
  from fetch_pages_run [OF run] obtain evs where
    t: "trace s' = trace s @ evs" and
    sh: "run_shape E (include_public, include_private, include_archived) 1 [] evs (Inr repositories)"
    by auto
  from sh have res: "repositories = filter (keeps include_public include_private include_archived)
                             (listed (org E) evs)"
    by (auto simp: run_shape_def)
  have "\<forall>repo\<in>set repositories. \<not> flag repo ''private''" if "\<not> include_private"
    using that unfolding res by (auto simp: keeps_def)
  with t res show "\<exists>evs. trace s' = trace s @ evs
          \<and> repositories = filter (keeps include_public include_private include_archived)
                             (listed (org E) evs)
          \<and> (\<not> include_private \<longrightarrow> (\<forall>repo\<in>set repositories. \<not> flag repo ''private''))"
    by blast
qed

theorem discovery_keeps_by_filters_witness:
  "filter_repos True False True [] mixed_page
     = Inr [repo_entry ''api'' False False, repo_entry ''docs'' False True,
            repo_entry ''web'' False False]
   \<and> (\<exists>s' evs. get_repositories
          (example_env ample_quota [\<lparr>status_code = 200, body = JList mixed_page\<rparr>] [])
          True False True start
        = Some (Inr [repo_entry ''api'' False False, repo_entry ''docs'' False True,
                     repo_entry ''web'' False False], s')
      \<and> trace s' = trace start @ evs
      \<and> [repo_entry ''api'' False False, repo_entry ''docs'' False True,
          repo_entry ''web'' False False]
         = filter (keeps True False True) (listed ''acme'' evs))"
proof -
  let ?E = "example_env ample_quota [\<lparr>status_code = 200, body = JList mixed_page\<rparr>] []"
  let ?kept = "[repo_entry ''api'' False False, repo_entry ''docs'' False True,
                repo_entry ''web'' False False]"
  have objects: "\<forall>e\<in>set mixed_page. is_object e"
    by (simp add: mixed_page_def repo_entry_def is_object_def)
  have kept: "filter (keeps True False True) mixed_page = ?kept"
    by (simp add: mixed_page_def repo_entry_def keeps_def flag_def)
  have org: "org ?E = ''acme''" by (simp add: example_env_def)
  obtain s' where run: "get_repositories ?E True False True start = Some (Inr ?kept, s')"
    using mixed_run by blast
  from discovery_keeps_by_filters [of mixed_page True False True ?E start ?kept s']
    objects kept run org
  show ?thesis by auto
qed

text \<open>
  C4: the page size is 100 and the page counter starts at 1 and goes up by one. At any
  pass of the loop, a 200 answer with an empty page ends the loop at once with the
  repositories accumulated so far; a page of fewer than 100 entries ends it after its
  kept entries were added, also when the page is not empty; a page of 100 entries
  continues with the next page. The requests of a run that returns are those of the
  pages 1, 2, ... up to the last one.
\<close>

theorem pagination_terminates:
  assumes guard: "check_rate_limit E s = (Inr (), s1)"
    and fetch: "session_get E (listing_request E page) s1 = (response, s2)"
    and ok: "status_code response = 200"
    and page: "body response = JList entries"
    and objects: "\<forall>e\<in>set entries. is_object e"
  shows "map_of (params (listing_request E page)) ''page'' = Some (JInt page)
       \<and> map_of (params (listing_request E page)) ''per_page'' = Some (JInt 100)
       \<and> get_repositories E ip ipr ia s0 = fetch_pages E (ip, ipr, ia) 1 [] s0
       \<and> (entries = [] \<longrightarrow> fetch_pages E (ip, ipr, ia) page acc s = Some (Inr acc, s2))
       \<and> (length entries < 100 \<longrightarrow>
            fetch_pages E (ip, ipr, ia) page acc s
              = Some (Inr (acc @ filter (keeps ip ipr ia) entries), s2))
       \<and> (100 \<le> length entries \<longrightarrow>
            fetch_pages E (ip, ipr, ia) page acc s
              = fetch_pages E (ip, ipr, ia) (page + 1) (acc @ filter (keeps ip ipr ia) entries) s2)
       \<and> (get_repositories E ip ipr ia s0 = Some (Inr res, s') \<longrightarrow>
            (\<exists>n evs. trace s' = trace s0 @ evs \<and> requests evs = page_requests E 1 (Suc n)))"
proof -
  have filt: "filter_repos ip ipr ia [] entries = Inr (filter (keeps ip ipr ia) entries)"
    using filter_repos_objects [OF objects, of ip ipr ia "[]"] by simp
  have empty: "fetch_pages E (ip, ipr, ia) page acc s = Some (Inr acc, s2)" if "entries = []"
    using that guard fetch ok page
    by (subst fetch_pages.simps) (simp add: page_pass_def)
  have short: "fetch_pages E (ip, ipr, ia) page acc s
      = Some (Inr (acc @ filter (keeps ip ipr ia) entries), s2)" if "length entries < 100"
  proof (cases "entries = []")
    case True
    with empty show ?thesis by simp
  next
    case False
    with that guard fetch ok page filt show ?thesis
      by (subst fetch_pages.simps) (simp add: page_pass_def per_page_def)
  qed
  have full: "fetch_pages E (ip, ipr, ia) page acc s
      = fetch_pages E (ip, ipr, ia) (page + 1) (acc @ filter (keeps ip ipr ia) entries) s2"
    if "100 \<le> length entries"
  proof -
    from that have "entries \<noteq> []" by auto
    with that guard fetch ok page filt show ?thesis
      by (subst fetch_pages.simps) (simp add: page_pass_def per_page_def)
  qed
  have run: "\<exists>n evs. trace s' = trace s0 @ evs \<and> requests evs = page_requests E 1 (Suc n)"
    if "get_repositories E ip ipr ia s0 = Some (Inr res, s')"
  proof -
    from that have "fetch_pages E (ip, ipr, ia) 1 [] s0 = Some (Inr res, s')"
      by (simp add: get_repositories_def)
    from fetch_pages_run [OF this] show ?thesis
      by (auto simp: run_shape_def)
  qed
  show ?thesis
    using empty short full run
    by (simp add: listing_request_def per_page_def get_repositories_def)
qed

theorem pagination_terminates_witness:
  "fetch_pages
      (example_env ample_quota
         [\<lparr>status_code = 200, body = JList full_page\<rparr>,
          \<lparr>status_code = 200, body = JList mixed_page\<rparr>] [])
      (True, True, True) 1 [] start
    = fetch_pages
      (example_env ample_quota
         [\<lparr>status_code = 200, body = JList full_page\<rparr>,
          \<lparr>status_code = 200, body = JList mixed_page\<rparr>] [])
      (True, True, True) 2 full_page
      (snd (session_get
         (example_env ample_quota
           [\<lparr>status_code = 200, body = JList full_page\<rparr>,
            \<lparr>status_code = 200, body = JList mixed_page\<rparr>] [])
         (listing_request
           (example_env ample_quota
             [\<lparr>status_code = 200, body = JList full_page\<rparr>,
              \<lparr>status_code = 200, body = JList mixed_page\<rparr>] []) 1)
         (snd (check_rate_limit
           (example_env ample_quota
             [\<lparr>status_code = 200, body = JList full_page\<rparr>,
              \<lparr>status_code = 200, body = JList mixed_page\<rparr>] []) start))))
   \<and> (\<exists>s'. get_repositories
         (example_env ample_quota
           [\<lparr>status_code = 200, body = JList full_page\<rparr>,
            \<lparr>status_code = 200, body = JList mixed_page\<rparr>] [])
         True True True start
        = Some (Inr (full_page @ mixed_page), s')
      \<and> requests (trace s')
        = [rate_limit_request,
           listing_request (example_env ample_quota
             [\<lparr>status_code = 200, body = JList full_page\<rparr>,
              \<lparr>status_code = 200, body = JList mixed_page\<rparr>] []) 1,
           rate_limit_request,
           listing_request (example_env ample_quota
             [\<lparr>status_code = 200, body = JList full_page\<rparr>,
              \<lparr>status_code = 200, body = JList mixed_page\<rparr>] []) 2])
   \<and> (\<exists>s'. fetch_pages (example_env ample_quota [\<lparr>status_code = 200, body = JList full_page\<rparr>] [])
          (True, True, True) 2 full_page start
        = Some (Inr full_page, s'))"
proof -
  let ?pages = "[\<lparr>status_code = 200, body = JList full_page\<rparr>,
                 \<lparr>status_code = 200, body = JList mixed_page\<rparr>]"
  let ?E = "example_env ample_quota ?pages []"
  let ?F = "example_env ample_quota [\<lparr>status_code = 200, body = JList full_page\<rparr>] []"
  let ?s1 = "snd (check_rate_limit ?E start)"
  let ?s2 = "snd (session_get ?E (listing_request ?E 1) ?s1)"
  let ?s3 = "snd (check_rate_limit ?E ?s2)"
  let ?s4 = "snd (session_get ?E (listing_request ?E 2) ?s3)"
  let ?t1 = "snd (check_rate_limit ?F start)"
  let ?t2 = "snd (session_get ?F (listing_request ?F 2) ?t1)"
  have mixed: "\<forall>e\<in>set mixed_page. is_object e" "length mixed_page < 100"
    "filter (keeps True True True) mixed_page = mixed_page"
    by (simp_all add: mixed_page_def repo_entry_def is_object_def keeps_def flag_def)
  have first: "fetch_pages ?E (True, True, True) 1 [] start
      = fetch_pages ?E (True, True, True) 2 full_page ?s2"
    using pagination_terminates [of ?E start ?s1 1 "example_page ?pages 1" ?s2 full_page
        True True True start "[]"]
    by (simp add: example_guard example_fetch example_page_def full_page_facts)
  have second: "fetch_pages ?E (True, True, True) 2 full_page ?s2
      = Some (Inr (full_page @ mixed_page), ?s4)"
    using pagination_terminates [of ?E ?s2 ?s3 2 "example_page ?pages 2" ?s4 mixed_page
        True True True start full_page]
    by (simp add: example_guard example_fetch example_page_def mixed)
  have third: "fetch_pages ?F (True, True, True) 2 full_page start = Some (Inr full_page, ?t2)"
    using pagination_terminates [of ?F start ?t1 2 "example_page [\<lparr>status_code = 200, body = JList full_page\<rparr>] 2" ?t2 "[]"
        True True True start full_page]
    by (simp add: example_guard example_fetch example_page_def)
  have run: "get_repositories ?E True True True start = Some (Inr (full_page @ mixed_page), ?s4)"
    using first second by (simp add: get_repositories_def)
  have rq: "requests (trace ?s4)
      = [rate_limit_request, listing_request ?E 1, rate_limit_request, listing_request ?E 2]"
    by (simp add: example_guard example_fetch start_def)
  from first run rq third show ?thesis by blast
qed

text \<open>
  C6: when the fetch of a listing page is answered with a status other than 200, the
  loop ends there without raising: the result is the repositories accumulated so far
  and the failed fetch is the last effect, so the page is not fetched again. In a run
  of \<open>get_repositories\<close> a failed fetch is the last event of the run, and the result
  is the kept entries of the pages fetched before it.
\<close>

theorem failed_fetch_stops_pagination:
  "(check_rate_limit E s = (Inr (), s1)
      \<and> session_get E (listing_request E page) s1 = (response, s2)
      \<and> status_code response \<noteq> 200 \<longrightarrow>
        fetch_pages E flags page acc s = Some (Inr acc, s2)
      \<and> trace s2 = trace s1 @ [Call (listing_request E page) response])
   \<and> (get_repositories E include_public include_private include_archived s0 = Some (out, s')
      \<and> trace s' = trace s0 @ evs \<and> ev \<in> set evs \<and> failed_listing (org E) ev \<longrightarrow>
        out = Inr (filter (keeps include_public include_private include_archived)
                     (listed (org E) (butlast evs)))
      \<and> last evs = ev
      \<and> (\<forall>e\<in>set (butlast evs). \<not> failed_listing (org E) e))"
proof (intro conjI impI)
  assume a: "check_rate_limit E s = (Inr (), s1)
      \<and> session_get E (listing_request E page) s1 = (response, s2)
      \<and> status_code response \<noteq> 200"
  then show "fetch_pages E flags page acc s = Some (Inr acc, s2)"
    by (subst fetch_pages.simps) (simp add: page_pass_def)
  from a show "trace s2 = trace s1 @ [Call (listing_request E page) response]"
    by (blast intro: session_get_trace)
next
  assume a: "get_repositories E include_public include_private include_archived s0 = Some (out, s')
      \<and> trace s' = trace s0 @ evs \<and> ev \<in> set evs \<and> failed_listing (org E) ev"
  let ?flags = "(include_public, include_private, include_archived)"
  from a have run: "fetch_pages E ?flags 1 [] s0 = Some (out, s')"
    by (simp add: get_repositories_def)
  from fetch_pages_failure [OF run] a have ne: "evs \<noteq> []"
    and bl: "\<forall>e\<in>set (butlast evs). \<not> failed_listing (org E) e"
    and la: "failed_listing (org E) (last evs) \<longrightarrow> (\<exists>res. out = Inr res)"
    by auto
  from ne have "set evs = set (butlast evs) \<union> {last evs}"
    by (metis append_butlast_last_id list.simps(15) set_append empty_set)
  with a bl have last: "last evs = ev" by auto
  with a la obtain res where out: "out = Inr res" by blast
  from fetch_pages_run [OF run] a out
  have "res = filter (keeps include_public include_private include_archived) (listed (org E) evs)"
    by (auto simp: run_shape_def)
  moreover have "listed (org E) evs = listed (org E) (butlast evs)"
  proof -
    from ne have "evs = butlast evs @ [last evs]" by simp
    then have "listed (org E) evs = listed (org E) (butlast evs) @ listed (org E) [last evs]"
      by (metis listed_append)
    with last a show ?thesis by (simp add: listed_failed)
  qed
  ultimately show "out = Inr (filter (keeps include_public include_private include_archived)
                     (listed (org E) (butlast evs)))"
    using out by simp
  from last show "last evs = ev" .
  from bl show "\<forall>e\<in>set (butlast evs). \<not> failed_listing (org E) e" .
qed

theorem failed_fetch_stops_pagination_witness:
  "(\<exists>s'. get_repositories
         (example_env ample_quota
           [\<lparr>status_code = 200, body = JList full_page\<rparr>,
            \<lparr>status_code = 502, body = JDict [(''message'', JStr ''Bad Gateway'')]\<rparr>] [])
         True True True start
        = Some (Inr full_page, s')
      \<and> requests (trace s')
        = [rate_limit_request,
           listing_request (example_env ample_quota
             [\<lparr>status_code = 200, body = JList full_page\<rparr>,
              \<lparr>status_code = 502, body = JDict [(''message'', JStr ''Bad Gateway'')]\<rparr>] []) 1,
           rate_limit_request,
           listing_request (example_env ample_quota
             [\<lparr>status_code = 200, body = JList full_page\<rparr>,
              \<lparr>status_code = 502, body = JDict [(''message'', JStr ''Bad Gateway'')]\<rparr>] []) 2]
      \<and> failed_listing ''acme'' (last (trace s'))
      \<and> Inr full_page = (Inr (filter (keeps True True True) (listed ''acme'' (butlast (trace s'))))
           :: py_error + json list))"
proof -
  let ?bad = "\<lparr>status_code = 502, body = JDict [(''message'', JStr ''Bad Gateway'')]\<rparr>"
  let ?pages = "[\<lparr>status_code = 200, body = JList full_page\<rparr>, ?bad]"
  let ?E = "example_env ample_quota ?pages []"
  let ?s1 = "snd (check_rate_limit ?E start)"
  let ?s2 = "snd (session_get ?E (listing_request ?E 1) ?s1)"
  let ?s3 = "snd (check_rate_limit ?E ?s2)"
  let ?s4 = "snd (session_get ?E (listing_request ?E 2) ?s3)"
  have org: "org ?E = ''acme''" by (simp add: example_env_def)
  have first: "fetch_pages ?E (True, True, True) 1 [] start
      = fetch_pages ?E (True, True, True) 2 full_page ?s2"
    by (subst fetch_pages.simps)
       (simp add: page_pass_def example_guard example_fetch example_page_def per_page_def
          filter_repos_objects full_page_facts)
  have second: "fetch_pages ?E (True, True, True) 2 full_page ?s2 = Some (Inr full_page, ?s4)"
    using failed_fetch_stops_pagination [of ?E ?s2 ?s3 2 ?bad ?s4 "(True, True, True)" full_page]
    by (simp add: example_guard example_fetch example_page_def)
  have run: "get_repositories ?E True True True start = Some (Inr full_page, ?s4)"
    using first second by (simp add: get_repositories_def)
  have tr: "trace ?s4 = [Call rate_limit_request ample_quota,
      Call (listing_request ?E 1) \<lparr>status_code = 200, body = JList full_page\<rparr>,
      Call rate_limit_request ample_quota, Call (listing_request ?E 2) ?bad]"
    by (simp add: example_guard example_fetch example_page_def start_def)
  have failed: "failed_listing ''acme'' (last (trace ?s4))"
    unfolding tr by (simp add: listing_request_def example_env_def)
  have p2: "trace ?s4 = trace start @ trace ?s4" by (simp add: start_def)
  have p3: "last (trace ?s4) \<in> set (trace ?s4)" unfolding tr by simp
  have p4: "failed_listing (org ?E) (last (trace ?s4))" using failed by (simp only: org)
  note prem = conjI [OF run conjI [OF p2 conjI [OF p3 p4]]]
  have res: "Inr full_page
      = (Inr (filter (keeps True True True) (listed ''acme'' (butlast (trace ?s4))))
         :: py_error + json list)"
    using failed_fetch_stops_pagination
      [of ?E start ?s1 1 ?bad ?s2 "(True, True, True)" "[]" True True True start "Inr full_page"
         ?s4 "trace ?s4" "last (trace ?s4)", THEN conjunct2, THEN mp, OF prem]
    by (simp only: org)
  have rq: "requests (trace ?s4)
      = [rate_limit_request, listing_request ?E 1, rate_limit_request, listing_request ?E 2]"
    by (simp add: tr)
  from run rq failed res show ?thesis by blast
qed

section \<open>Properties of the rate-limit guard\<close>





section \<open>Properties of the locator\<close>

lemma probe_miss_status:
  "session_get E (contents_request E repo_name location) s = (response, s1) \<Longrightarrow>
   status_code response \<noteq> 200 \<Longrightarrow>
   probe_locations E repo_name (location # rest) s = probe_locations E repo_name rest s1"
  by simp

lemma probe_miss_content:
  "session_get E (contents_request E repo_name location) s = (response, s1) \<Longrightarrow>
   dict_get (body response) ''content'' JNull = Inr v \<Longrightarrow> \<not> truthy v \<Longrightarrow>
   probe_locations E repo_name (location # rest) s = probe_locations E repo_name rest s1"
  by simp

lemma probe_hit:
  "session_get E (contents_request E repo_name location) s = (response, s1) \<Longrightarrow>
   status_code response = 200 \<Longrightarrow>
   dict_get (body response) ''content'' JNull = Inr (JStr b64) \<Longrightarrow> b64 \<noteq> [] \<Longrightarrow>
   b64decode_utf8 E b64 = Inr content \<Longrightarrow>
   probe_locations E repo_name (location # rest) s = (Inr (Some content, Some location), s1)"
  by simp

text \<open>The requests of the locator and what it returns, for any list of locations.\<close>

lemma probe_locations_run:
  "probe_locations E repo_name locs s = (out, s') \<Longrightarrow>
   \<exists>k evs. trace s' = trace s @ evs \<and> k \<le> length locs
     \<and> (\<forall>ev\<in>set evs. \<exists>loc r. ev = Call (contents_request E repo_name loc) r)
     \<and> requests evs = map (contents_request E repo_name) (take k locs)
     \<and> (case out of
          Inl e \<Rightarrow> 0 < k
        | Inr (c, l) \<Rightarrow>
            (case l of
               None \<Rightarrow> c = None \<and> k = length locs
             | Some loc \<Rightarrow> (\<exists>text. c = Some text) \<and> 0 < k \<and> loc = locs ! (k - 1)))"
proof (induction locs arbitrary: s)
  case Nil
  then show ?case by (intro exI [of _ 0] exI [of _ "[]"]) auto
next
  case (Cons location rest)
  obtain response s1 where get: "session_get E (contents_request E repo_name location) s = (response, s1)"
    by (cases "session_get E (contents_request E repo_name location) s")
  have t1: "trace s1 = trace s @ [Call (contents_request E repo_name location) response]"
    by (rule session_get_trace [OF get])
  consider (stop) "s' = s1" "case out of Inl e \<Rightarrow> True
        | Inr (c, l) \<Rightarrow> (\<exists>text. c = Some text) \<and> l = Some location"
    | (continue) "probe_locations E repo_name rest s1 = (out, s')"
    using Cons.prems get
    by (auto split: if_splits sum.splits json.splits)
  then show ?case
  proof cases
    case stop
    with t1 show ?thesis
      by (intro exI [of _ 1] exI [of _ "[Call (contents_request E repo_name location) response]"])
         (auto split: sum.splits)
  next
    case continue
    from Cons.IH [OF this] obtain k evs where
      t: "trace s' = trace s1 @ evs" and k: "k \<le> length rest"
      and z: "\<forall>ev\<in>set evs. \<exists>loc r. ev = Call (contents_request E repo_name loc) r"
      and rq: "requests evs = map (contents_request E repo_name) (take k rest)"
      and out: "case out of
          Inl e \<Rightarrow> 0 < k
        | Inr (c, l) \<Rightarrow>
            (case l of
               None \<Rightarrow> c = None \<and> k = length rest
             | Some loc \<Rightarrow> (\<exists>text. c = Some text) \<and> 0 < k \<and> loc = rest ! (k - 1))"
      by blast
    let ?evs = "Call (contents_request E repo_name location) response # evs"
    have "trace s' = trace s @ ?evs" using t t1 by simp
    moreover have "Suc k \<le> length (location # rest)" using k by simp
    moreover have "requests ?evs = map (contents_request E repo_name) (take (Suc k) (location # rest))"
      using rq by simp
    moreover have "\<forall>ev\<in>set ?evs. \<exists>loc r. ev = Call (contents_request E repo_name loc) r"
      using z by auto
    moreover have "case out of
          Inl e \<Rightarrow> 0 < Suc k
        | Inr (c, l) \<Rightarrow>
            (case l of
               None \<Rightarrow> c = None \<and> Suc k = length (location # rest)
             | Some loc \<Rightarrow> (\<exists>text. c = Some text) \<and> 0 < Suc k \<and> loc = (location # rest) ! (Suc k - 1))"
      using out by (auto split: sum.splits option.splits)
    ultimately show ?thesis by blast
  qed
qed

lemma example_file:
  "session_get example_org (contents_request example_org repo_name location) s
     = (case map_of example_files (repo_name, location) of
          Some r \<Rightarrow> r
        | None \<Rightarrow> \<lparr>status_code = 404, body = JDict [(''message'', JStr ''Not Found'')]\<rparr>,
        \<lparr>world = world s,
         trace = trace s @ [Call (contents_request example_org repo_name location)
           (case map_of example_files (repo_name, location) of
              Some r \<Rightarrow> r
            | None \<Rightarrow> \<lparr>status_code = 404, body = JDict [(''message'', JStr ''Not Found'')]\<rparr>)]\<rparr>)"
  by (simp add: session_get_def example_org_def example_env_def example_get_def
      contents_request_def split: option.splits)

lemma example_org_facts:
  "b64decode_utf8 example_org = example_decode" "org example_org = ''acme''"
  by (simp_all add: example_org_def example_env_def)

text \<open>
  C2, as far as it holds: the locator probes the three paths \<open>.github/CODEOWNERS\<close>,
  \<open>CODEOWNERS\<close>, \<open>docs/CODEOWNERS\<close> in this order. At the path it has reached, a
  200 answer with a non-empty base64 content that decodes as UTF-8 makes it return the
  decoded content and that path, with no later probe; an answer with any other status
  makes it continue with the paths left. The requests of a call are the first \<open>k\<close>
  of the three paths: the path it found is the last one probed, and all three were
  probed when it found none. A content that does not decode, or is not a string,
  raises at that path.
\<close>

theorem locator_probes_in_priority_order:
  "locations = [''.github/CODEOWNERS'', ''CODEOWNERS'', ''docs/CODEOWNERS'']
   \<and> (session_get E (contents_request E repo_name location) s = (response, s1) \<longrightarrow>
        (status_code response = 200
           \<and> dict_get (body response) ''content'' JNull = Inr (JStr b64) \<and> b64 \<noteq> []
           \<and> b64decode_utf8 E b64 = Inr content \<longrightarrow>
           probe_locations E repo_name (location # rest) s
             = (Inr (Some content, Some location), s1))
      \<and> (status_code response \<noteq> 200 \<longrightarrow>
           probe_locations E repo_name (location # rest) s
             = probe_locations E repo_name rest s1))
   \<and> (get_codeowners_content E repo_name s0 = (out, s') \<longrightarrow>
        (\<exists>k evs. trace s' = trace s0 @ evs \<and> k \<le> 3
           \<and> requests evs = map (contents_request E repo_name) (take k locations)
           \<and> (\<forall>c loc. out = Inr (c, Some loc) \<longrightarrow> 0 < k \<and> loc = locations ! (k - 1))
           \<and> (\<forall>c. out = Inr (c, None) \<longrightarrow> k = 3)))
   \<and> (session_get E (contents_request E repo_name location) s = (response, s1)
        \<and> status_code response = 200
        \<and> dict_get (body response) ''content'' JNull = Inr (JStr b64) \<and> b64 \<noteq> []
        \<and> b64decode_utf8 E b64 = Inl e \<longrightarrow>
        probe_locations E repo_name (location # rest) s = (Inl e, s1))
   \<and> (session_get E (contents_request E repo_name location) s = (response, s1)
        \<and> status_code response = 200
        \<and> dict_get (body response) ''content'' JNull = Inr v \<and> truthy v
        \<and> (\<forall>b. v \<noteq> JStr b) \<longrightarrow>
        probe_locations E repo_name (location # rest) s = (Inl TypeError, s1))"
proof (intro conjI impI)
  show "locations = [''.github/CODEOWNERS'', ''CODEOWNERS'', ''docs/CODEOWNERS'']"
    by (rule locations_def)
next
  assume "session_get E (contents_request E repo_name location) s = (response, s1)
        \<and> status_code response = 200
        \<and> dict_get (body response) ''content'' JNull = Inr (JStr b64) \<and> b64 \<noteq> []
        \<and> b64decode_utf8 E b64 = Inl e"
  then show "probe_locations E repo_name (location # rest) s = (Inl e, s1)"
    by simp
next
  assume "session_get E (contents_request E repo_name location) s = (response, s1)
        \<and> status_code response = 200
        \<and> dict_get (body response) ''content'' JNull = Inr v \<and> truthy v
        \<and> (\<forall>b. v \<noteq> JStr b)"
  then show "probe_locations E repo_name (location # rest) s = (Inl TypeError, s1)"
    by (cases v) simp_all
next
  assume "session_get E (contents_request E repo_name location) s = (response, s1)"
    and "status_code response = 200
           \<and> dict_get (body response) ''content'' JNull = Inr (JStr b64) \<and> b64 \<noteq> []
           \<and> b64decode_utf8 E b64 = Inr content"
  then show "probe_locations E repo_name (location # rest) s
             = (Inr (Some content, Some location), s1)"
    by (simp add: probe_hit)
next
  assume "session_get E (contents_request E repo_name location) s = (response, s1)"
    and "status_code response \<noteq> 200"
  then show "probe_locations E repo_name (location # rest) s
             = probe_locations E repo_name rest s1"
    by (rule probe_miss_status)
next
  assume "get_codeowners_content E repo_name s0 = (out, s')"
  then have "probe_locations E repo_name locations s0 = (out, s')"
    by (simp add: get_codeowners_content_def)
  from probe_locations_run [OF this] obtain k evs where
    "trace s' = trace s0 @ evs" "k \<le> length locations"
    "requests evs = map (contents_request E repo_name) (take k locations)"
    and out: "case out of
          Inl e \<Rightarrow> 0 < k
        | Inr (c, l) \<Rightarrow>
            (case l of
               None \<Rightarrow> c = None \<and> k = length locations
             | Some loc \<Rightarrow> (\<exists>text. c = Some text) \<and> 0 < k \<and> loc = locations ! (k - 1))"
    by blast
  moreover have "length locations = 3" by (simp add: locations_def)
  moreover from out have "\<forall>c loc. out = Inr (c, Some loc) \<longrightarrow> 0 < k \<and> loc = locations ! (k - 1)"
    by auto
  moreover from out have "\<forall>c. out = Inr (c, None) \<longrightarrow> k = length locations"
    by auto
  ultimately show "\<exists>k evs. trace s' = trace s0 @ evs \<and> k \<le> 3
           \<and> requests evs = map (contents_request E repo_name) (take k locations)
           \<and> (\<forall>c loc. out = Inr (c, Some loc) \<longrightarrow> 0 < k \<and> loc = locations ! (k - 1))
           \<and> (\<forall>c. out = Inr (c, None) \<longrightarrow> k = 3)"
    by (intro exI [of _ k] exI [of _ evs]) simp
qed

theorem locator_probes_in_priority_order_witness:
  "get_codeowners_content example_org (JStr ''api'') start
     = (Inr (Some ''* @bob'', Some ''.github/CODEOWNERS''),
        \<lparr>world = 1700000000,
         trace = [Call (contents_request example_org (JStr ''api'') ''.github/CODEOWNERS'')
                    (file_answer ''KiBAYm9i'')]\<rparr>)
   \<and> probe_locations example_org (JStr ''docs-only'') [''CODEOWNERS'', ''docs/CODEOWNERS''] start
     = probe_locations example_org (JStr ''docs-only'') [''docs/CODEOWNERS'']
         \<lparr>world = 1700000000,
          trace = [Call (contents_request example_org (JStr ''docs-only'') ''CODEOWNERS'')
                     \<lparr>status_code = 404, body = JDict [(''message'', JStr ''Not Found'')]\<rparr>]\<rparr>
   \<and> (\<exists>s'. get_codeowners_content example_org (JStr ''docs-only'') start = (Inr (None, None), s')
        \<and> requests (trace s')
          = map (contents_request example_org (JStr ''docs-only''))
              [''.github/CODEOWNERS'', ''CODEOWNERS'', ''docs/CODEOWNERS''])
   \<and> probe_locations example_org (JStr ''blob'') locations start
     = (Inl DecodeError,
        \<lparr>world = 1700000000,
         trace = [Call (contents_request example_org (JStr ''blob'') ''.github/CODEOWNERS'')
                    (file_answer ''/w=='')]\<rparr>)
   \<and> probe_locations example_org (JStr ''odd'') locations start
     = (Inl TypeError,
        \<lparr>world = 1700000000,
         trace = [Call (contents_request example_org (JStr ''odd'') ''.github/CODEOWNERS'')
                    \<lparr>status_code = 200, body = JDict [(''content'', JInt 7)]\<rparr>]\<rparr>)"
proof -
  let ?hit = "file_answer ''KiBAYm9i''"
  let ?s1 = "\<lparr>world = 1700000000,
         trace = [Call (contents_request example_org (JStr ''api'') ''.github/CODEOWNERS'') ?hit]\<rparr>"
  let ?miss = "\<lparr>status_code = 404, body = JDict [(''message'', JStr ''Not Found'')]\<rparr>"
  let ?t1 = "\<lparr>world = 1700000000,
          trace = [Call (contents_request example_org (JStr ''docs-only'') ''CODEOWNERS'') ?miss]\<rparr>"
  have get1: "session_get example_org (contents_request example_org (JStr ''api'') ''.github/CODEOWNERS'') start
      = (?hit, ?s1)"
    by (simp add: example_file example_files_def start_def)
  have get2: "session_get example_org (contents_request example_org (JStr ''docs-only'') ''CODEOWNERS'') start
      = (?miss, ?t1)"
    by (simp add: example_file example_files_def start_def)
  have payload: "status_code ?hit = 200
      \<and> dict_get (body ?hit) ''content'' JNull = Inr (JStr ''KiBAYm9i'') \<and> ''KiBAYm9i'' \<noteq> []
      \<and> b64decode_utf8 example_org ''KiBAYm9i'' = Inr ''* @bob''"
    by (simp add: file_answer_def example_org_facts example_decode_def)
  have a: "get_codeowners_content example_org (JStr ''api'') start
      = (Inr (Some ''* @bob'', Some ''.github/CODEOWNERS''), ?s1)"
    using locator_probes_in_priority_order
      [of example_org "JStr ''api''" "''.github/CODEOWNERS''" start ?hit ?s1 "''KiBAYm9i''"
          "''* @bob''" "[''CODEOWNERS'', ''docs/CODEOWNERS'']"]
      get1 payload
    by (simp add: get_codeowners_content_def locations_def)
  have b: "probe_locations example_org (JStr ''docs-only'') [''CODEOWNERS'', ''docs/CODEOWNERS''] start
     = probe_locations example_org (JStr ''docs-only'') [''docs/CODEOWNERS''] ?t1"
    using locator_probes_in_priority_order
      [of example_org "JStr ''docs-only''" "''CODEOWNERS''" start ?miss ?t1 "[]" "[]"
          "[''docs/CODEOWNERS'']"]
      get2
    by simp
  obtain s' where run: "get_codeowners_content example_org (JStr ''docs-only'') start
      = (Inr (None, None), s')"
    by (simp add: get_codeowners_content_def locations_def example_file example_files_def)
  from locator_probes_in_priority_order
      [of example_org "JStr ''docs-only''" "''CODEOWNERS''" start ?miss ?t1 "[]" "[]"
          "[''docs/CODEOWNERS'']" start "Inr (None, None)" s'] run
  have "requests (trace s')
      = map (contents_request example_org (JStr ''docs-only''))
          [''.github/CODEOWNERS'', ''CODEOWNERS'', ''docs/CODEOWNERS'']"
    by (auto simp: start_def locations_def)
  with run have c: "\<exists>s'. get_codeowners_content example_org (JStr ''docs-only'') start
        = (Inr (None, None), s')
      \<and> requests (trace s')
        = map (contents_request example_org (JStr ''docs-only''))
            [''.github/CODEOWNERS'', ''CODEOWNERS'', ''docs/CODEOWNERS'']"
    by blast
  let ?bad = "file_answer ''/w==''"
  let ?u1 = "\<lparr>world = 1700000000,
         trace = [Call (contents_request example_org (JStr ''blob'') ''.github/CODEOWNERS'') ?bad]\<rparr>"
  let ?num = "\<lparr>status_code = 200, body = JDict [(''content'', JInt 7)]\<rparr>"
  let ?v1 = "\<lparr>world = 1700000000,
         trace = [Call (contents_request example_org (JStr ''odd'') ''.github/CODEOWNERS'') ?num]\<rparr>"
  have get3: "session_get example_org (contents_request example_org (JStr ''blob'') ''.github/CODEOWNERS'') start
      = (?bad, ?u1)"
    by (simp add: example_file example_files_def start_def)
  have get4: "session_get example_org (contents_request example_org (JStr ''odd'') ''.github/CODEOWNERS'') start
      = (?num, ?v1)"
    by (simp add: example_file example_files_def start_def)
  have undecodable: "status_code ?bad = 200
      \<and> dict_get (body ?bad) ''content'' JNull = Inr (JStr ''/w=='') \<and> ''/w=='' \<noteq> []
      \<and> b64decode_utf8 example_org ''/w=='' = Inl DecodeError"
    by (simp add: file_answer_def example_org_facts example_decode_def)
  have number: "status_code ?num = 200 \<and> dict_get (body ?num) ''content'' JNull = Inr (JInt 7)
      \<and> truthy (JInt 7) \<and> (\<forall>b. JInt 7 \<noteq> JStr b)"
    by simp
  have d: "probe_locations example_org (JStr ''blob'') locations start = (Inl DecodeError, ?u1)"
    using locator_probes_in_priority_order
      [of example_org "JStr ''blob''" "''.github/CODEOWNERS''" start ?bad ?u1 "''/w==''"
          "[]" "[''CODEOWNERS'', ''docs/CODEOWNERS'']" start "Inr (None, None)" start
          DecodeError JNull] get3 undecodable
    by (simp add: locations_def)
  have e: "probe_locations example_org (JStr ''odd'') locations start = (Inl TypeError, ?v1)"
    using locator_probes_in_priority_order
      [of example_org "JStr ''odd''" "''.github/CODEOWNERS''" start ?num ?v1 "[]"
          "[]" "[''CODEOWNERS'', ''docs/CODEOWNERS'']" start "Inr (None, None)" start
          DecodeError "JInt 7"] get4 number
    by (simp add: locations_def)
  from a b c d e show ?thesis by (intro conjI)
qed

text \<open>
  C2 as stated does not hold for every 200 answer with a non-empty content: the
  repository \<open>blob\<close> has at \<open>.github/CODEOWNERS\<close> a file whose base64 content
  \<open>/w==\<close> is the single byte \<open>FF\<close>, which is not UTF-8. The answer has status 200
  and a non-empty content, and the locator returns no content and no path: it raises the
  decoding error to its caller, after this one probe.
\<close>

theorem locator_raises_on_undecodable_payload:
  "status_code (file_answer ''/w=='') = 200
   \<and> dict_get (body (file_answer ''/w=='')) ''content'' JNull = Inr (JStr ''/w=='')
   \<and> get_codeowners_content example_org (JStr ''blob'') start
     = (Inl DecodeError,
        \<lparr>world = 1700000000,
         trace = [Call (contents_request example_org (JStr ''blob'') ''.github/CODEOWNERS'')
                    (file_answer ''/w=='')]\<rparr>)"
  by (simp add: get_codeowners_content_def locations_def example_file example_files_def
      file_answer_def example_org_facts example_decode_def start_def)

text \<open>
  C9, as far as it holds: a 200 answer whose JSON body is an object with no
  \<open>content\<close>, or an empty one, is skipped like an answer that is not 200: the search
  continues with the paths left. A returned pair is \<open>(None, None)\<close>, or a content
  together with one of the three paths: the content is present iff the location is. A
  200 answer whose body is not an object raises \<open>AttributeError\<close> at \<open>data.get\<close>.
\<close>

theorem empty_content_is_not_found:
  "(session_get E (contents_request E repo_name location) s = (response, s1)
      \<and> (status_code response \<noteq> 200
         \<or> status_code response = 200 \<and> body response = JDict kvs
           \<and> (map_of kvs ''content'' = None
              \<or> (\<exists>v. map_of kvs ''content'' = Some v \<and> \<not> truthy v))) \<longrightarrow>
      probe_locations E repo_name (location # rest) s = probe_locations E repo_name rest s1)
   \<and> (get_codeowners_content E repo_name s0 = (Inr (c, l), s') \<longrightarrow>
        (c = None \<and> l = None) \<or> (\<exists>text loc. c = Some text \<and> l = Some loc \<and> loc \<in> set locations))
   \<and> (session_get E (contents_request E repo_name location) s = (response, s1)
        \<and> status_code response = 200 \<and> \<not> is_object (body response) \<longrightarrow>
        probe_locations E repo_name (location # rest) s = (Inl AttributeError, s1))"
proof (intro conjI impI)
  assume "session_get E (contents_request E repo_name location) s = (response, s1)
        \<and> status_code response = 200 \<and> \<not> is_object (body response)"
  then show "probe_locations E repo_name (location # rest) s = (Inl AttributeError, s1)"
    by (cases "body response") (simp_all add: is_object_def)
next
  assume a: "session_get E (contents_request E repo_name location) s = (response, s1)
      \<and> (status_code response \<noteq> 200
         \<or> status_code response = 200 \<and> body response = JDict kvs
           \<and> (map_of kvs ''content'' = None
              \<or> (\<exists>v. map_of kvs ''content'' = Some v \<and> \<not> truthy v)))"
  then have get: "session_get E (contents_request E repo_name location) s = (response, s1)"
    by simp
  from a consider "status_code response \<noteq> 200"
    | v where "dict_get (body response) ''content'' JNull = Inr v" "\<not> truthy v"
    by auto
  then show "probe_locations E repo_name (location # rest) s = probe_locations E repo_name rest s1"
  proof cases
    case 1
    with get show ?thesis by (rule probe_miss_status)
  next
    case 2
    with get show ?thesis by (rule probe_miss_content)
  qed
next
  assume "get_codeowners_content E repo_name s0 = (Inr (c, l), s')"
  then have "probe_locations E repo_name locations s0 = (Inr (c, l), s')"
    by (simp add: get_codeowners_content_def)
  from probe_locations_run [OF this] obtain k where "k \<le> length locations"
    and out: "case l of
               None \<Rightarrow> c = None \<and> k = length locations
             | Some loc \<Rightarrow> (\<exists>text. c = Some text) \<and> 0 < k \<and> loc = locations ! (k - 1)"
    by (auto simp del: One_nat_def)
  show "(c = None \<and> l = None) \<or> (\<exists>text loc. c = Some text \<and> l = Some loc \<and> loc \<in> set locations)"
  proof (cases l)
    case None
    with out show ?thesis by simp
  next
    case (Some loc)
    with out \<open>k \<le> length locations\<close> have "loc \<in> set locations"
      by (auto intro: nth_mem)
    with out Some show ?thesis by auto
  qed
qed

theorem empty_content_is_not_found_witness:
  "get_codeowners_content example_org (JStr ''web'') start
     = (Inr (Some ''@platform-team\<newline>'', Some ''docs/CODEOWNERS''),
        \<lparr>world = 1700000000,
         trace = [Call (contents_request example_org (JStr ''web'') ''.github/CODEOWNERS'')
                    (file_answer []),
                  Call (contents_request example_org (JStr ''web'') ''CODEOWNERS'')
                    \<lparr>status_code = 200, body = JDict [(''type'', JStr ''submodule'')]\<rparr>,
                  Call (contents_request example_org (JStr ''web'') ''docs/CODEOWNERS'')
                    (file_answer ''QHBsYXRmb3JtLXRlYW0K'')]\<rparr>)
   \<and> ''docs/CODEOWNERS'' \<in> set locations
   \<and> probe_locations example_org (JStr ''tree'') locations start
     = (Inl AttributeError,
        \<lparr>world = 1700000000,
         trace = [Call (contents_request example_org (JStr ''tree'') ''.github/CODEOWNERS'')
                    \<lparr>status_code = 200,
                     body = JList [JDict [(''type'', JStr ''file''),
                                          (''name'', JStr ''README.md'')]]\<rparr>]\<rparr>)"
proof -
  let ?r1 = "file_answer []"
  let ?r2 = "\<lparr>status_code = 200, body = JDict [(''type'', JStr ''submodule'')]\<rparr>"
  let ?r3 = "file_answer ''QHBsYXRmb3JtLXRlYW0K''"
  let ?rq = "contents_request example_org (JStr ''web'')"
  let ?s1 = "\<lparr>world = 1700000000, trace = [Call (?rq ''.github/CODEOWNERS'') ?r1]\<rparr>"
  let ?s2 = "\<lparr>world = 1700000000,
      trace = [Call (?rq ''.github/CODEOWNERS'') ?r1, Call (?rq ''CODEOWNERS'') ?r2]\<rparr>"
  let ?s3 = "\<lparr>world = 1700000000,
      trace = [Call (?rq ''.github/CODEOWNERS'') ?r1, Call (?rq ''CODEOWNERS'') ?r2,
               Call (?rq ''docs/CODEOWNERS'') ?r3]\<rparr>"
  have get1: "session_get example_org (?rq ''.github/CODEOWNERS'') start = (?r1, ?s1)"
    by (simp add: example_file example_files_def start_def)
  have get2: "session_get example_org (?rq ''CODEOWNERS'') ?s1 = (?r2, ?s2)"
    by (simp add: example_file example_files_def)
  have get3: "session_get example_org (?rq ''docs/CODEOWNERS'') ?s2 = (?r3, ?s3)"
    by (simp add: example_file example_files_def)
  have first: "probe_locations example_org (JStr ''web'') locations start
      = probe_locations example_org (JStr ''web'') [''CODEOWNERS'', ''docs/CODEOWNERS''] ?s1"
    using empty_content_is_not_found
      [of example_org "JStr ''web''" "''.github/CODEOWNERS''" start ?r1 ?s1
          "[(''type'', JStr ''file''), (''content'', JStr [])]"
          "[''CODEOWNERS'', ''docs/CODEOWNERS'']"] get1
    by (simp add: locations_def file_answer_def)
  have second: "probe_locations example_org (JStr ''web'') [''CODEOWNERS'', ''docs/CODEOWNERS''] ?s1
      = probe_locations example_org (JStr ''web'') [''docs/CODEOWNERS''] ?s2"
    using empty_content_is_not_found
      [of example_org "JStr ''web''" "''CODEOWNERS''" ?s1 ?r2 ?s2
          "[(''type'', JStr ''submodule'')]" "[''docs/CODEOWNERS'']"] get2
    by simp
  have third: "probe_locations example_org (JStr ''web'') [''docs/CODEOWNERS''] ?s2
      = (Inr (Some ''@platform-team\<newline>'', Some ''docs/CODEOWNERS''), ?s3)"
    using get3
    by (simp add: file_answer_def example_org_facts example_decode_def)
  have run: "get_codeowners_content example_org (JStr ''web'') start
      = (Inr (Some ''@platform-team\<newline>'', Some ''docs/CODEOWNERS''), ?s3)"
    using first second third by (simp add: get_codeowners_content_def)
  from empty_content_is_not_found
      [of example_org "JStr ''web''" "''CODEOWNERS''" ?s1 ?r2 ?s2
          "[(''type'', JStr ''submodule'')]" "[''docs/CODEOWNERS'']" start
          "Some ''@platform-team\<newline>''" "Some ''docs/CODEOWNERS''" ?s3] run
  have member: "''docs/CODEOWNERS'' \<in> set locations" by simp
  let ?dir = "\<lparr>status_code = 200,
      body = JList [JDict [(''type'', JStr ''file''), (''name'', JStr ''README.md'')]]\<rparr>"
  let ?t1 = "\<lparr>world = 1700000000,
      trace = [Call (contents_request example_org (JStr ''tree'') ''.github/CODEOWNERS'') ?dir]\<rparr>"
  have get4: "session_get example_org (contents_request example_org (JStr ''tree'') ''.github/CODEOWNERS'') start
      = (?dir, ?t1)"
    by (simp add: example_file example_files_def start_def)
  have array: "status_code ?dir = 200 \<and> \<not> is_object (body ?dir)"
    by (simp add: is_object_def)
  have raises: "probe_locations example_org (JStr ''tree'') locations start
      = (Inl AttributeError, ?t1)"
    using empty_content_is_not_found
      [of example_org "JStr ''tree''" "''.github/CODEOWNERS''" start ?dir ?t1 "[]"
          "[''CODEOWNERS'', ''docs/CODEOWNERS'']" start None None start] get4 array
    by (simp add: locations_def)
  from run member raises show ?thesis by (intro conjI)
qed

text \<open>
  C9 as stated does not hold for every 200 answer without a \<open>content\<close>: at the
  repository \<open>tree\<close> the path \<open>.github/CODEOWNERS\<close> is a directory, and the
  contents endpoint answers 200 with a JSON array of its entries. The array has no
  \<open>content\<close> and no \<open>get\<close>: the locator does not go on to the next path, it
  raises \<open>AttributeError\<close> after this one probe.
\<close>

theorem locator_raises_on_array_body:
  "get_codeowners_content example_org (JStr ''tree'') start
     = (Inl AttributeError,
        \<lparr>world = 1700000000,
         trace = [Call (contents_request example_org (JStr ''tree'') ''.github/CODEOWNERS'')
                    \<lparr>status_code = 200,
                     body = JList [JDict [(''type'', JStr ''file''),
                                          (''name'', JStr ''README.md'')]]\<rparr>]\<rparr>)"
  by (simp add: get_codeowners_content_def locations_def example_file example_files_def
      start_def)

section \<open>Properties of the analysis loop\<close>

lemma repo_segments_segment:
  "Slept Pacing \<notin> set seg \<Longrightarrow>
   repo_segments (seg @ Slept Pacing # rest) = (seg @ [Slept Pacing]) # repo_segments rest"
  by (induction seg) auto

lemma guard_calls_append: "guard_calls (a @ b) = guard_calls a + guard_calls b"
  by (simp add: guard_calls_def requests_append)

lemma check_rate_limit_shape:
  assumes "check_rate_limit E s = (out, s1)"
  shows "\<exists>evs. trace s1 = trace s @ evs \<and> guard_calls evs = 1 \<and> Slept Pacing \<notin> set evs"
proof -
  obtain r s0 where g: "session_get E rate_limit_request s = (r, s0)"
    by (cases "session_get E rate_limit_request s")
  have t0: "trace s0 = trace s @ [Call rate_limit_request r]"
    by (rule session_get_trace [OF g])
  from assms g have "s1 = s0 \<or> (\<exists>w. s1 = slept E (Seconds w) s0)"
    by (auto simp: check_rate_limit_def time_sleep_def split: if_splits sum.splits option.splits)
  with t0 show ?thesis
    by (auto simp: rate_limit_request_def slept_def guard_calls_def)
qed

lemma probe_locations_shape:
  assumes "get_codeowners_content E repo_name s = (out, s')"
  shows "\<exists>evs. trace s' = trace s @ evs \<and> guard_calls evs = 0 \<and> Slept Pacing \<notin> set evs"
proof -
  from assms have "probe_locations E repo_name locations s = (out, s')"
    by (simp add: get_codeowners_content_def)
  from probe_locations_run [OF this] obtain evs where
    t: "trace s' = trace s @ evs"
    and calls: "\<forall>ev\<in>set evs. \<exists>loc r. ev = Call (contents_request E repo_name loc) r"
    by blast
  from calls have "guard_calls evs = 0 \<and> Slept Pacing \<notin> set evs"
  proof (induction evs)
    case Nil
    show ?case by (simp add: guard_calls_def)
  next
    case (Cons ev evs)
    then obtain loc r where "ev = Call (contents_request E repo_name loc) r" by auto
    with Cons show ?case by (auto simp: guard_calls_def contents_request_def)
  qed
  with t show ?thesis by blast
qed

text \<open>What one pass of the analysis loop returns and adds to the trace.\<close>

lemma analyze_one_run:
  assumes "analyze_one E i repo s = (Inr r, s')"
  shows "\<exists>repo_name repo_url s1 s2 content location seg.
           subscript repo ''name'' = Inr repo_name
         \<and> subscript repo ''html_url'' = Inr repo_url
         \<and> get_codeowners_content E repo_name s1 = (Inr (content, location), s2)
         \<and> r = assemble repo_url repo_name content location
         \<and> trace s' = trace s @ seg @ [Slept Pacing]
         \<and> Slept Pacing \<notin> set seg
         \<and> guard_calls seg = (if i mod 50 = 0 then 1 else 0)"
proof -
  from assms obtain repo_name repo_url where
    name: "subscript repo ''name'' = Inr repo_name" and url: "subscript repo ''html_url'' = Inr repo_url"
    by (auto simp: analyze_one_def split: sum.splits)
  obtain g s1 where guard: "(if i mod 50 = 0 then check_rate_limit E s else (Inr (), s)) = (g, s1)"
    by (cases "if i mod 50 = 0 then check_rate_limit E s else (Inr (), s)")
  obtain out s2 where loc: "get_codeowners_content E repo_name s1 = (out, s2)"
    by (cases "get_codeowners_content E repo_name s1")
  from assms name url guard loc obtain content location where
    out: "out = Inr (content, location)" and r: "r = assemble repo_url repo_name content location"
    and s': "s' = slept E Pacing s2"
    by (auto simp: analyze_one_def time_sleep_def split: sum.splits prod.splits)
  have "\<exists>evs1. trace s1 = trace s @ evs1 \<and> guard_calls evs1 = (if i mod 50 = 0 then 1 else 0)
      \<and> Slept Pacing \<notin> set evs1"
  proof (cases "i mod 50 = 0")
    case True
    with guard check_rate_limit_shape [of E s g s1] show ?thesis by simp
  next
    case False
    with guard show ?thesis by (intro exI [of _ "[]"]) (auto simp: guard_calls_def)
  qed
  then obtain evs1 where t1: "trace s1 = trace s @ evs1"
    and g1: "guard_calls evs1 = (if i mod 50 = 0 then 1 else 0)" and p1: "Slept Pacing \<notin> set evs1"
    by blast
  from probe_locations_shape [OF loc] obtain evs2 where t2: "trace s2 = trace s1 @ evs2"
    and g2: "guard_calls evs2 = 0" and p2: "Slept Pacing \<notin> set evs2"
    by blast
  have "trace s' = trace s @ (evs1 @ evs2) @ [Slept Pacing]"
    using s' t1 t2 by (simp add: slept_def)
  moreover have "Slept Pacing \<notin> set (evs1 @ evs2)" using p1 p2 by simp
  moreover have "guard_calls (evs1 @ evs2) = (if i mod 50 = 0 then 1 else 0)"
    using g1 g2 by (simp add: guard_calls_append)
  ultimately show ?thesis using name url loc out r by blast
qed

lemma analyze_loop_run:
  "analyze_loop E i repositories acc s = (Inr results, s') \<Longrightarrow>
   \<exists>recs evs. results = acc @ recs
     \<and> list_all2 (\<lambda>repo r. \<exists>repo_name repo_url s1 s2 content location.
           subscript repo ''name'' = Inr repo_name
         \<and> subscript repo ''html_url'' = Inr repo_url
         \<and> get_codeowners_content E repo_name s1 = (Inr (content, location), s2)
         \<and> r = assemble repo_url repo_name content location) repositories recs
     \<and> trace s' = trace s @ evs
     \<and> map guard_calls (repo_segments evs)
         = map (\<lambda>j. if j mod 50 = 0 then 1 else 0) [i..<i + length repositories]"
proof (induction repositories arbitrary: i acc s)
  case Nil
  then show ?case by (intro exI [of _ "[]"]) simp
next
  case (Cons repo rest)
  obtain out s1 where one: "analyze_one E i repo s = (out, s1)"
    by (cases "analyze_one E i repo s")
  with Cons.prems obtain r where out: "out = Inr r"
    and loop: "analyze_loop E (i + 1) rest (acc @ [r]) s1 = (Inr results, s')"
    by (auto split: sum.splits)
  from analyze_one_run [OF one [unfolded out]] obtain seg where
    rec: "\<exists>repo_name repo_url s1 s2 content location.
           subscript repo ''name'' = Inr repo_name
         \<and> subscript repo ''html_url'' = Inr repo_url
         \<and> get_codeowners_content E repo_name s1 = (Inr (content, location), s2)
         \<and> r = assemble repo_url repo_name content location"
    and t1: "trace s1 = trace s @ seg @ [Slept Pacing]"
    and p: "Slept Pacing \<notin> set seg"
    and g: "guard_calls seg = (if i mod 50 = 0 then 1 else 0)"
    by blast
  from Cons.IH [OF loop] obtain recs evs where
    res: "results = (acc @ [r]) @ recs"
    and all: "list_all2 (\<lambda>repo r. \<exists>repo_name repo_url s1 s2 content location.
           subscript repo ''name'' = Inr repo_name
         \<and> subscript repo ''html_url'' = Inr repo_url
         \<and> get_codeowners_content E repo_name s1 = (Inr (content, location), s2)
         \<and> r = assemble repo_url repo_name content location) rest recs"
    and t: "trace s' = trace s1 @ evs"
    and segs: "map guard_calls (repo_segments evs)
         = map (\<lambda>j. if j mod 50 = 0 then 1 else 0) [i + 1..<i + 1 + length rest]"
    by blast
  let ?evs = "seg @ Slept Pacing # evs"
  have "results = acc @ (r # recs)" using res by simp
  moreover have "list_all2 (\<lambda>repo r. \<exists>repo_name repo_url s1 s2 content location.
           subscript repo ''name'' = Inr repo_name
         \<and> subscript repo ''html_url'' = Inr repo_url
         \<and> get_codeowners_content E repo_name s1 = (Inr (content, location), s2)
         \<and> r = assemble repo_url repo_name content location) (repo # rest) (r # recs)"
    using rec all by simp
  moreover have "trace s' = trace s @ ?evs" using t t1 by simp
  moreover have "map guard_calls (repo_segments ?evs)
         = map (\<lambda>j. if j mod 50 = 0 then 1 else 0) [i..<i + length (repo # rest)]"
  proof -
    have "i < i + length (repo # rest)" by simp
    from upt_conv_Cons [OF this]
    have "[i..<i + length (repo # rest)] = i # [i + 1..<i + 1 + length rest]"
      by simp
    moreover have "guard_calls [Slept Pacing] = 0" by (simp add: guard_calls_def)
    then have "guard_calls (seg @ [Slept Pacing]) = (if i mod 50 = 0 then 1 else 0)"
      using g by (simp add: guard_calls_append)
    ultimately show ?thesis
      using segs by (simp add: repo_segments_segment [OF p])
  qed
  ultimately show ?case by blast
qed

lemma parse_reaches_line:
  assumes lines: "split_on CHR 0x0A (strip content) = pre @ l # post"
    and skipped: "\<forall>x\<in>set pre. skipped_line x"
    and qualifying: "\<not> skipped_line l"
  shows "parse_primary_codeowner content = parse_lines (l # post)"
proof -
  have "content \<noteq> []"
  proof
    assume "content = []"
    then have "split_on CHR 0x0A (strip content) = [[]]" by (simp add: strip_def)
    with lines have "pre = [] \<and> l = []" by (cases pre) auto
    with qualifying show False by (simp add: skipped_line_def strip_def)
  qed
  with lines parse_lines_skip [OF skipped] show ?thesis
    by (simp add: parse_primary_codeowner_def)
qed

lemma parse_all_skipped:
  assumes "\<forall>l\<in>set (split_on CHR 0x0A (strip content)). skipped_line l"
  shows "parse_primary_codeowner content = None"
  using parse_lines_skip [OF assms, of "[]"] by (simp add: parse_primary_codeowner_def)

lemma assemble_fields:
  "has_codeowner_file (assemble repo_url repo_name content location)
     \<longleftrightarrow> (\<exists>c. content = Some c \<and> c \<noteq> [])"
  "\<not> has_codeowner_file (assemble repo_url repo_name content location) \<Longrightarrow>
     codeowners_file_location (assemble repo_url repo_name content location) = None
   \<and> primary_owner (assemble repo_url repo_name content location) = ''No CODEOWNERS file''"
  "content = Some c \<Longrightarrow> c \<noteq> [] \<Longrightarrow>
     primary_owner (assemble repo_url repo_name content location)
       = owner_or_default (parse_primary_codeowner c)
   \<and> codeowners_file_location (assemble repo_url repo_name content location) = location"
  "repository_url (assemble repo_url repo_name content location) = repo_url"
  "repository_name (assemble repo_url repo_name content location) = repo_name"
  by (auto simp: assemble_def owner_or_default_def split: option.splits)

subsection \<open>Concrete runs of the analysis\<close>

lemma example_locate:
  "get_codeowners_content example_org (JStr ''api'') s
     = (Inr (Some ''* @bob'', Some ''.github/CODEOWNERS''),
        \<lparr>world = world s,
         trace = trace s @ [Call (contents_request example_org (JStr ''api'') ''.github/CODEOWNERS'')
                    (file_answer ''KiBAYm9i'')]\<rparr>)"
  "get_codeowners_content example_org (JStr ''ghost'') s
     = (Inr (None, None),
        \<lparr>world = world s,
         trace = trace s @ map (\<lambda>l. Call (contents_request example_org (JStr ''ghost'') l)
                    \<lparr>status_code = 404, body = JDict [(''message'', JStr ''Not Found'')]\<rparr>)
                  locations\<rparr>)"
  "get_codeowners_content example_org (JStr ''notes'') s
     = (Inr (Some ''# owners\<newline>\<newline>'', Some ''CODEOWNERS''),
        \<lparr>world = world s,
         trace = trace s @ [Call (contents_request example_org (JStr ''notes'') ''.github/CODEOWNERS'')
                    \<lparr>status_code = 404, body = JDict [(''message'', JStr ''Not Found'')]\<rparr>,
                  Call (contents_request example_org (JStr ''notes'') ''CODEOWNERS'')
                    (file_answer ''IyBvd25lcnMKCg=='')]\<rparr>)"
  "get_codeowners_content example_org (JStr ''lone'') s
     = (Inr (Some ''# team\<newline>@\<newline>'', Some ''.github/CODEOWNERS''),
        \<lparr>world = world s,
         trace = trace s @ [Call (contents_request example_org (JStr ''lone'') ''.github/CODEOWNERS'')
                    (file_answer ''IyB0ZWFtCkAK'')]\<rparr>)"
  by (simp_all add: get_codeowners_content_def locations_def example_file example_files_def
      file_answer_def example_org_facts example_decode_def)

lemma example_parse:
  "parse_primary_codeowner ''* @bob'' = Some ''bob''"
  "parse_primary_codeowner ''# owners\<newline>\<newline>'' = None"
  "parse_primary_codeowner ''# team\<newline>@\<newline>'' = Some []"
  by (simp_all add: parse_primary_codeowner_def strip_def isspace_def startswith_def
      split_ws.simps)

lemma example_analyze_one:
  "\<exists>s'. analyze_one example_org i (repo_entry ''api'' False False) s = (Inr api_record, s')"
proof -
  have guard: "check_rate_limit example_org s
      = (Inr (), \<lparr>world = world s, trace = trace s @ [Call rate_limit_request ample_quota]\<rparr>)"
    unfolding example_org_def by (rule example_guard)
  show ?thesis
    by (cases "i mod 50 = 0")
       (simp_all add: analyze_one_def time_sleep_Pacing repo_entry_def guard example_locate assemble_def
          example_parse owner_or_default_def api_record_def)
qed

lemma example_analyze_loop:
  "\<exists>s'. analyze_loop example_org i (replicate n (repo_entry ''api'' False False)) acc s
     = (Inr (acc @ replicate n api_record), s')"
proof (induction n arbitrary: i acc s)
  case 0
  show ?case by simp
next
  case (Suc n)
  from example_analyze_one [of i s] obtain s1 where
    one: "analyze_one example_org i (repo_entry ''api'' False False) s = (Inr api_record, s1)" ..
  from Suc [of "i + 1" "acc @ [api_record]" s1] obtain s' where
    "analyze_loop example_org (i + 1) (replicate n (repo_entry ''api'' False False))
       (acc @ [api_record]) s1 = (Inr ((acc @ [api_record]) @ replicate n api_record), s')" ..
  with one show ?case by (simp add: replicate_app_Cons_same)
qed

subsection \<open>The report and the cadence of the guard\<close>

text \<open>
  C5: a record without a CODEOWNERS file has no location and the owner
  \<open>No CODEOWNERS file\<close>; the owner is \<open>No CODEOWNERS file\<close> whenever the file is
  missing or the parser returns nothing for it, in particular for a file of comments and
  blank lines only. Every record that \<open>analyze_repositories\<close> returns is assembled
  from the name and URL of its repository and from what the locator returned for it, and
  satisfies the first property.
\<close>

theorem record_defaults_to_no_codeowners:
  "((\<not> has_codeowner_file (assemble repo_url repo_name content location) \<longrightarrow>
        codeowners_file_location (assemble repo_url repo_name content location) = None
      \<and> primary_owner (assemble repo_url repo_name content location) = ''No CODEOWNERS file'')
    \<and> (content = None \<or> (\<exists>c. content = Some c \<and> parse_primary_codeowner c = None) \<longrightarrow>
        primary_owner (assemble repo_url repo_name content location) = ''No CODEOWNERS file'')
    \<and> ((\<exists>c. content = Some c \<and> (\<forall>l\<in>set (split_on CHR 0x0A (strip c)). skipped_line l)) \<longrightarrow>
        primary_owner (assemble repo_url repo_name content location) = ''No CODEOWNERS file''))
   \<and> (analyze_repositories E repositories s = (Inr results, s') \<longrightarrow>
        list_all2 (\<lambda>repo r. \<exists>name url s1 s2 c l.
              subscript repo ''name'' = Inr name \<and> subscript repo ''html_url'' = Inr url
            \<and> get_codeowners_content E name s1 = (Inr (c, l), s2)
            \<and> r = assemble url name c l) repositories results
      \<and> (\<forall>r\<in>set results.
            \<not> has_codeowner_file r \<longrightarrow>
              codeowners_file_location r = None \<and> primary_owner r = ''No CODEOWNERS file''))"
proof -
  let ?r = "assemble repo_url repo_name content location"
  have a: "\<not> has_codeowner_file ?r \<longrightarrow>
        codeowners_file_location ?r = None \<and> primary_owner ?r = ''No CODEOWNERS file''"
    using assemble_fields(2) by blast
  have b: "primary_owner ?r = ''No CODEOWNERS file''"
    if "content = None \<or> (\<exists>c. content = Some c \<and> parse_primary_codeowner c = None)"
    using that by (auto simp: assemble_def owner_or_default_def)
  have c: "primary_owner ?r = ''No CODEOWNERS file''"
    if "\<exists>c. content = Some c \<and> (\<forall>l\<in>set (split_on CHR 0x0A (strip c)). skipped_line l)"
  proof -
    from that obtain c where "content = Some c" "parse_primary_codeowner c = None"
      using parse_all_skipped by blast
    with b show ?thesis by blast
  qed
  have d: "list_all2 (\<lambda>repo r. \<exists>name url s1 s2 c l.
              subscript repo ''name'' = Inr name \<and> subscript repo ''html_url'' = Inr url
            \<and> get_codeowners_content E name s1 = (Inr (c, l), s2)
            \<and> r = assemble url name c l) repositories results
      \<and> (\<forall>r\<in>set results.
            \<not> has_codeowner_file r \<longrightarrow>
              codeowners_file_location r = None \<and> primary_owner r = ''No CODEOWNERS file'')"
    if "analyze_repositories E repositories s = (Inr results, s')"
  proof -
    from that have "analyze_loop E 1 repositories [] s = (Inr results, s')"
      by (simp add: analyze_repositories_def)
    from analyze_loop_run [OF this]
    have all: "list_all2 (\<lambda>repo r. \<exists>name url s1 s2 c l.
              subscript repo ''name'' = Inr name \<and> subscript repo ''html_url'' = Inr url
            \<and> get_codeowners_content E name s1 = (Inr (c, l), s2)
            \<and> r = assemble url name c l) repositories results"
      by auto
    have "\<not> has_codeowner_file r \<longrightarrow>
        codeowners_file_location r = None \<and> primary_owner r = ''No CODEOWNERS file''"
      if "r \<in> set results" for r
    proof -
      from that all obtain url name c l where "r = assemble url name c l"
        by (auto simp: list_all2_conv_all_nth in_set_conv_nth)
      then show ?thesis using assemble_fields(2) [of url name c l] by simp
    qed
    with all show ?thesis by blast
  qed
  from a b c d show ?thesis by blast
qed

theorem record_defaults_to_no_codeowners_witness:
  "(\<exists>s'. analyze_repositories example_org
       [repo_entry ''api'' False False, repo_entry ''ghost'' False False,
        repo_entry ''notes'' True False] start
     = (Inr [\<lparr>repository_url = JStr ''https://github.com/acme/api'',
              repository_name = JStr ''api'', has_codeowner_file = True,
              codeowners_file_location = Some ''.github/CODEOWNERS'',
              primary_owner = ''bob''\<rparr>,
             \<lparr>repository_url = JStr ''https://github.com/acme/ghost'',
              repository_name = JStr ''ghost'', has_codeowner_file = False,
              codeowners_file_location = None,
              primary_owner = ''No CODEOWNERS file''\<rparr>,
             \<lparr>repository_url = JStr ''https://github.com/acme/notes'',
              repository_name = JStr ''notes'', has_codeowner_file = True,
              codeowners_file_location = Some ''CODEOWNERS'',
              primary_owner = ''No CODEOWNERS file''\<rparr>], s'))
   \<and> primary_owner (assemble (JStr ''u'') (JStr ''notes'') (Some ''# owners\<newline>\<newline>'') (Some ''CODEOWNERS''))
       = ''No CODEOWNERS file''
   \<and> primary_owner (assemble (JStr ''u'') (JStr ''ghost'') None None) = ''No CODEOWNERS file''"
proof -
  let ?repos = "[repo_entry ''api'' False False, repo_entry ''ghost'' False False,
        repo_entry ''notes'' True False]"
  let ?recs = "[\<lparr>repository_url = JStr ''https://github.com/acme/api'',
              repository_name = JStr ''api'', has_codeowner_file = True,
              codeowners_file_location = Some ''.github/CODEOWNERS'',
              primary_owner = ''bob''\<rparr>,
             \<lparr>repository_url = JStr ''https://github.com/acme/ghost'',
              repository_name = JStr ''ghost'', has_codeowner_file = False,
              codeowners_file_location = None,
              primary_owner = ''No CODEOWNERS file''\<rparr>,
             \<lparr>repository_url = JStr ''https://github.com/acme/notes'',
              repository_name = JStr ''notes'', has_codeowner_file = True,
              codeowners_file_location = Some ''CODEOWNERS'',
              primary_owner = ''No CODEOWNERS file''\<rparr>]"
  obtain s' where run: "analyze_repositories example_org ?repos start = (Inr ?recs, s')"
    by (simp add: analyze_repositories_def analyze_one_def time_sleep_Pacing repo_entry_def example_locate
        assemble_def example_parse owner_or_default_def)
  have skipped: "\<exists>c. Some ''# owners\<newline>\<newline>'' = Some c
      \<and> (\<forall>l\<in>set (split_on CHR 0x0A (strip c)). skipped_line l)"
    by (simp add: strip_def isspace_def skipped_line_def startswith_def)
  from record_defaults_to_no_codeowners
    [of "JStr ''u''" "JStr ''notes''" "Some ''# owners\<newline>\<newline>''" "Some ''CODEOWNERS''"
        example_org ?repos start ?recs s'] skipped
  have nts: "primary_owner (assemble (JStr ''u'') (JStr ''notes'') (Some ''# owners\<newline>\<newline>'')
      (Some ''CODEOWNERS'')) = ''No CODEOWNERS file''"
    by blast
  from record_defaults_to_no_codeowners
    [of "JStr ''u''" "JStr ''ghost''" None None example_org ?repos start ?recs s']
  have ghost: "primary_owner (assemble (JStr ''u'') (JStr ''ghost'') None None) = ''No CODEOWNERS file''"
    by blast
  from run nts ghost show ?thesis by blast
qed

lemma example_locate_stray:
  "get_codeowners_content example_org (JStr ''stray'') s
     = (Inr (Some ''README.md\<newline>@'', Some ''CODEOWNERS''),
        \<lparr>world = world s,
         trace = trace s @ [Call (contents_request example_org (JStr ''stray'') ''.github/CODEOWNERS'')
                    \<lparr>status_code = 404, body = JDict [(''message'', JStr ''Not Found'')]\<rparr>,
                  Call (contents_request example_org (JStr ''stray'') ''CODEOWNERS'')
                    (file_answer ''UkVBRE1FLm1kCkA='')]\<rparr>)"
  by (simp add: get_codeowners_content_def locations_def example_file example_files_def
      file_answer_def example_org_facts example_decode_def)

text \<open>
  C10: for a content whose first qualifying line is the single token \<open>@\<close>, whatever
  skipped or malformed lines come before it, the parser returns the empty string, not
  \<open>None\<close>; \<open>or\<close> turns \<open>None\<close> and the empty string alike into
  \<open>No CODEOWNERS file\<close>, so the record of the repository has \<open>has_codeowner_file\<close>
  true, its location, and the owner \<open>No CODEOWNERS file\<close>.
\<close>

theorem lone_at_sign_reports_default:
  assumes lines: "split_on CHR 0x0A (strip content) = pre @ l # post"
    and before: "\<forall>x\<in>set pre. \<not> qualifying_line x"
    and lone: "strip l = ''@''"
    and name: "subscript repo ''name'' = Inr repo_name"
    and url: "subscript repo ''html_url'' = Inr repo_url"
    and guard: "(if i mod 50 = 0 then check_rate_limit E s else (Inr (), s)) = (Inr (), s1)"
    and found: "get_codeowners_content E repo_name s1 = (Inr (Some content, Some location), s2)"
  shows "qualifying_line l
       \<and> parse_primary_codeowner content = Some []
       \<and> owner_or_default None = ''No CODEOWNERS file''
       \<and> owner_or_default (Some []) = ''No CODEOWNERS file''
       \<and> analyze_one E i repo s
           = (Inr \<lparr>repository_url = repo_url, repository_name = repo_name,
                   has_codeowner_file = True,
                   codeowners_file_location = Some location,
                   primary_owner = ''No CODEOWNERS file''\<rparr>,
              slept E Pacing s2)"
proof -
  have tokens: "split_ws ''@'' = [''@'']" by (simp add: split_ws.simps isspace_def)
  from lone tokens have q: "qualifying_line l"
    by (simp add: qualifying_line_def skipped_line_def startswith_def)
  from lone tokens have "rule_owner l = []" by (simp add: rule_owner_def)
  with parse_at_rule [OF lines before q]
  have parsed: "parse_primary_codeowner content = Some []" by simp
  have ne: "content \<noteq> []"
  proof
    assume "content = []"
    then have "split_on CHR 0x0A (strip content) = [[]]" by (simp add: strip_def)
    with lines have "l = []" by (cases pre) auto
    with lone show False by (simp add: strip_def)
  qed
  have "assemble repo_url repo_name (Some content) (Some location)
      = \<lparr>repository_url = repo_url, repository_name = repo_name, has_codeowner_file = True,
         codeowners_file_location = Some location, primary_owner = ''No CODEOWNERS file''\<rparr>"
    using ne parsed by (simp add: assemble_def owner_or_default_def)
  with name url guard found have "analyze_one E i repo s
      = (Inr \<lparr>repository_url = repo_url, repository_name = repo_name,
              has_codeowner_file = True, codeowners_file_location = Some location,
              primary_owner = ''No CODEOWNERS file''\<rparr>, slept E Pacing s2)"
    by (simp add: analyze_one_def time_sleep_Pacing)
  with parsed q show ?thesis by (simp add: owner_or_default_def)
qed

theorem lone_at_sign_reports_default_witness:
  "parse_primary_codeowner ''README.md\<newline>@'' = Some []
   \<and> fst (analyze_repositories example_org [repo_entry ''stray'' False False] start)
     = Inr [\<lparr>repository_url = JStr ''https://github.com/acme/stray'',
             repository_name = JStr ''stray'', has_codeowner_file = True,
             codeowners_file_location = Some ''CODEOWNERS'',
             primary_owner = ''No CODEOWNERS file''\<rparr>]
   \<and> parse_primary_codeowner ''# team\<newline>@\<newline>'' = Some []
   \<and> fst (analyze_repositories example_org [repo_entry ''lone'' False False] start)
     = Inr [\<lparr>repository_url = JStr ''https://github.com/acme/lone'',
             repository_name = JStr ''lone'', has_codeowner_file = True,
             codeowners_file_location = Some ''.github/CODEOWNERS'',
             primary_owner = ''No CODEOWNERS file''\<rparr>]"
proof -
  have tok: "split_ws ''README.md'' = [''README.md'']" "split_ws ''# team'' = [''#'', ''team'']"
    by (simp_all add: split_ws.simps isspace_def)
  have st: "strip ''README.md'' = ''README.md''" "strip ''# team'' = ''# team''"
    "strip ''@'' = ''@''"
    by (simp_all add: strip_def isspace_def)
  have nq1: "\<forall>x\<in>set [''README.md'']. \<not> qualifying_line x"
    by (simp add: qualifying_line_def skipped_line_def st tok startswith_def)
  have nq2: "\<forall>x\<in>set [''# team'']. \<not> qualifying_line x"
    by (simp add: qualifying_line_def skipped_line_def st tok startswith_def)
  have l1: "split_on CHR 0x0A (strip ''README.md\<newline>@'') = [''README.md''] @ ''@'' # []"
    by (simp add: strip_def isspace_def)
  have l2: "split_on CHR 0x0A (strip ''# team\<newline>@\<newline>'') = [''# team''] @ ''@'' # []"
    by (simp add: strip_def isspace_def)
  have name: "subscript (repo_entry n False False) ''name'' = Inr (JStr n)"
    and url: "subscript (repo_entry n False False) ''html_url''
      = Inr (JStr (''https://github.com/acme/'' @ n))" for n
    by (simp_all add: repo_entry_def)
  have guard: "(if (1::nat) mod 50 = 0 then check_rate_limit example_org start else (Inr (), start))
      = (Inr (), start)" by simp
  note one = lone_at_sign_reports_default
    [OF l1 nq1 st(3) name url guard example_locate_stray [of start]]
  note two = lone_at_sign_reports_default
    [OF l2 nq2 st(3) name url guard example_locate(4) [of start]]
  from one have a: "fst (analyze_repositories example_org [repo_entry ''stray'' False False] start)
     = Inr [\<lparr>repository_url = JStr ''https://github.com/acme/stray'',
             repository_name = JStr ''stray'', has_codeowner_file = True,
             codeowners_file_location = Some ''CODEOWNERS'',
             primary_owner = ''No CODEOWNERS file''\<rparr>]"
    by (simp add: analyze_repositories_def)
  from two have b: "fst (analyze_repositories example_org [repo_entry ''lone'' False False] start)
     = Inr [\<lparr>repository_url = JStr ''https://github.com/acme/lone'',
             repository_name = JStr ''lone'', has_codeowner_file = True,
             codeowners_file_location = Some ''.github/CODEOWNERS'',
             primary_owner = ''No CODEOWNERS file''\<rparr>]"
    by (simp add: analyze_repositories_def)
  from one two a b show ?thesis by simp
qed

text \<open>
  C8: in a discovery run the requests alternate between one quota probe of the guard
  and the fetch of the next page (a run that raises may end after the probe). In the
  analysis loop the segment of the \<open>j\<close>-th repository holds one quota probe when \<open>j\<close>
  is a multiple of 50 and none otherwise: the guard runs at the repositories 50, 100,
  150, ... and at no other.
\<close>

theorem guard_cadence:
  "(get_repositories E include_public include_private include_archived s = Some (out, s') \<longrightarrow>
      (\<exists>n evs. trace s' = trace s @ evs
         \<and> (requests evs = page_requests E 1 (Suc n)
            \<or> requests evs = page_requests E 1 n @ [rate_limit_request])))
   \<and> (analyze_loop E i repositories acc s0 = (Inr results, s1) \<longrightarrow>
      (\<exists>evs. trace s1 = trace s0 @ evs
         \<and> map guard_calls (repo_segments evs)
             = map (\<lambda>j. if j mod 50 = 0 then 1 else 0) [i..<i + length repositories]))
   \<and> (analyze_repositories E repositories s0 = (Inr results, s1) \<longrightarrow>
      (\<exists>evs. trace s1 = trace s0 @ evs
         \<and> map guard_calls (repo_segments evs)
             = map (\<lambda>j. if j mod 50 = 0 then 1 else 0) [1..<Suc (length repositories)]))"
proof (intro conjI impI)
  assume "get_repositories E include_public include_private include_archived s = Some (out, s')"
  then have "fetch_pages E (include_public, include_private, include_archived) 1 [] s
      = Some (out, s')"
    by (simp add: get_repositories_def)
  from fetch_pages_run [OF this] obtain evs where
    t: "trace s' = trace s @ evs" and
    sh: "run_shape E (include_public, include_private, include_archived) 1 [] evs out"
    by auto
  from sh have "\<exists>n. requests evs = page_requests E 1 (Suc n)
      \<or> requests evs = page_requests E 1 n @ [rate_limit_request]"
    unfolding run_shape_def by (cases out) auto
  then obtain n where "requests evs = page_requests E 1 (Suc n)
      \<or> requests evs = page_requests E 1 n @ [rate_limit_request]" ..
  with t show "\<exists>n evs. trace s' = trace s @ evs
         \<and> (requests evs = page_requests E 1 (Suc n)
            \<or> requests evs = page_requests E 1 n @ [rate_limit_request])"
    by blast
next
  assume "analyze_loop E i repositories acc s0 = (Inr results, s1)"
  from analyze_loop_run [OF this]
  show "\<exists>evs. trace s1 = trace s0 @ evs
         \<and> map guard_calls (repo_segments evs)
             = map (\<lambda>j. if j mod 50 = 0 then 1 else 0) [i..<i + length repositories]"
    by blast
next
  assume "analyze_repositories E repositories s0 = (Inr results, s1)"
  then have "analyze_loop E 1 repositories [] s0 = (Inr results, s1)"
    by (simp add: analyze_repositories_def)
  from analyze_loop_run [OF this]
  show "\<exists>evs. trace s1 = trace s0 @ evs
         \<and> map guard_calls (repo_segments evs)
             = map (\<lambda>j. if j mod 50 = 0 then 1 else 0) [1..<Suc (length repositories)]"
    by auto
qed

theorem guard_cadence_witness:
  "(\<exists>s1 evs. analyze_repositories example_org (replicate 100 (repo_entry ''api'' False False)) start
        = (Inr (replicate 100 api_record), s1)
      \<and> trace s1 = trace start @ evs
      \<and> map guard_calls (repo_segments evs)
          = map (\<lambda>j. if j mod 50 = 0 then 1 else 0) [1..<101]
      \<and> map guard_calls (repo_segments evs) ! 48 = 0
      \<and> map guard_calls (repo_segments evs) ! 49 = 1
      \<and> map guard_calls (repo_segments evs) ! 50 = 0
      \<and> map guard_calls (repo_segments evs) ! 99 = 1)
   \<and> (\<exists>s' evs. get_repositories
          (example_env ample_quota
            [\<lparr>status_code = 200, body = JList full_page\<rparr>,
             \<lparr>status_code = 200, body = JList mixed_page\<rparr>] [])
          True True True start = Some (Inr (full_page @ mixed_page), s')
      \<and> trace s' = trace start @ evs
      \<and> requests evs
        = [rate_limit_request,
           listing_request (example_env ample_quota
             [\<lparr>status_code = 200, body = JList full_page\<rparr>,
              \<lparr>status_code = 200, body = JList mixed_page\<rparr>] []) 1,
           rate_limit_request,
           listing_request (example_env ample_quota
             [\<lparr>status_code = 200, body = JList full_page\<rparr>,
              \<lparr>status_code = 200, body = JList mixed_page\<rparr>] []) 2])"
proof -
  let ?repos = "replicate 100 (repo_entry ''api'' False False)"
  let ?pages = "[\<lparr>status_code = 200, body = JList full_page\<rparr>,
                 \<lparr>status_code = 200, body = JList mixed_page\<rparr>]"
  let ?E = "example_env ample_quota ?pages []"
  from example_analyze_loop [of 1 100 "[]" start] obtain s1 where
    run: "analyze_repositories example_org ?repos start = (Inr (replicate 100 api_record), s1)"
    by (auto simp: analyze_repositories_def)
  from guard_cadence [of example_org True True True start "Inr []" start 1 ?repos "[]" start
      "replicate 100 api_record" s1] run
  obtain evs where t: "trace s1 = trace start @ evs"
    and c: "map guard_calls (repo_segments evs)
          = map (\<lambda>j. if j mod 50 = 0 then 1 else 0) [1..<101]"
    by auto
  have n: "map guard_calls (repo_segments evs) ! 48 = 0"
    "map guard_calls (repo_segments evs) ! 49 = 1"
    "map guard_calls (repo_segments evs) ! 50 = 0"
    "map guard_calls (repo_segments evs) ! 99 = 1"
    unfolding c by simp_all
  have first: "\<exists>s1 evs. analyze_repositories example_org ?repos start
        = (Inr (replicate 100 api_record), s1)
      \<and> trace s1 = trace start @ evs
      \<and> map guard_calls (repo_segments evs)
          = map (\<lambda>j. if j mod 50 = 0 then 1 else 0) [1..<101]
      \<and> map guard_calls (repo_segments evs) ! 48 = 0
      \<and> map guard_calls (repo_segments evs) ! 49 = 1
      \<and> map guard_calls (repo_segments evs) ! 50 = 0
      \<and> map guard_calls (repo_segments evs) ! 99 = 1"
    using run t c n by blast
  let ?s1 = "snd (check_rate_limit ?E start)"
  let ?s2 = "snd (session_get ?E (listing_request ?E 1) ?s1)"
  let ?s3 = "snd (check_rate_limit ?E ?s2)"
  let ?s4 = "snd (session_get ?E (listing_request ?E 2) ?s3)"
  have mixed: "\<forall>e\<in>set mixed_page. is_object e" "length mixed_page < 100"
    "filter (keeps True True True) mixed_page = mixed_page" "mixed_page \<noteq> []"
    by (simp_all add: mixed_page_def repo_entry_def is_object_def keeps_def flag_def)
  have p1: "fetch_pages ?E (True, True, True) 1 [] start
      = fetch_pages ?E (True, True, True) 2 full_page ?s2"
    by (subst fetch_pages.simps)
       (simp add: page_pass_def example_guard example_fetch example_page_def per_page_def
          filter_repos_objects full_page_facts)
  have p2: "fetch_pages ?E (True, True, True) 2 full_page ?s2
      = Some (Inr (full_page @ mixed_page), ?s4)"
    by (subst fetch_pages.simps)
       (simp add: page_pass_def example_guard example_fetch example_page_def per_page_def
          filter_repos_objects mixed)
  have run2: "get_repositories ?E True True True start = Some (Inr (full_page @ mixed_page), ?s4)"
    using p1 p2 by (simp add: get_repositories_def)
  have tr: "trace ?s4 = trace start @ trace ?s4" by (simp add: start_def)
  have rq: "requests (trace ?s4)
      = [rate_limit_request, listing_request ?E 1, rate_limit_request, listing_request ?E 2]"
    by (simp add: example_guard example_fetch start_def)
  from run2 tr rq have second: "\<exists>s' evs. get_repositories ?E True True True start
        = Some (Inr (full_page @ mixed_page), s')
      \<and> trace s' = trace start @ evs
      \<and> requests evs
        = [rate_limit_request, listing_request ?E 1, rate_limit_request, listing_request ?E 2]"
    by blast
  from first second show ?thesis by (rule conjI)
qed

end
